theory Spec2Isabelle
  imports Main "HOL-Library.Word"
begin

section \<open>JavaScript values used by the agent\<close>

text \<open>
  A JavaScript string is a sequence of UTF-16 code units; \<open>length\<close>, \<open>slice\<close>, \<open>trim\<close> and
  the regular expression of \<open>validateMessage\<close> all work on code units. \<open>js\<close> turns an ASCII
  literal of the source into such a sequence.
\<close>

type_synonym jsstring = "16 word list"

definition js :: "string \<Rightarrow> jsstring" where
  "js s = map (\<lambda>c. of_nat (of_char c)) s"

text \<open>
  The values a message field can hold at run time (the TypeScript types are erased).
  \<open>JObject\<close> stands for any object, which is always truthy. Numbers are integers here
  (\<open>NaN\<close>, which is falsy, is left out).
\<close>

datatype jsval = JUndefined | JNull | JBool bool | JNum int | JStr jsstring | JObject

fun truthy :: "jsval \<Rightarrow> bool" where
  "truthy JUndefined = False"
| "truthy JNull = False"
| "truthy (JBool b) = b"
| "truthy (JNum n) = (n \<noteq> 0)"
| "truthy (JStr s) = (s \<noteq> [])"
| "truthy JObject = True"

text \<open>
  An \<open>Error\<close> object as \<open>shouldRetry\<close> reads it: \<open>error.name\<close>, \<open>error.message\<close> and the
  optional \<open>error.response\<close> with its \<open>status\<close>. \<open>new Error(msg)\<close> has the name \<open>Error\<close> and
  no response.
\<close>

record HttpResponse =
  status :: int

record JSError =
  name :: jsstring
  message :: jsstring
  response :: "HttpResponse option"

definition Error :: "string \<Rightarrow> JSError" where
  "Error msg = \<lparr>name = js ''Error'', message = js msg, response = None\<rparr>"

section \<open>Messages and their validation\<close>

text \<open>
  \<open>author = None\<close> is a missing (undefined or null) author. \<open>raw\<close> is the opaque platform
  payload.
\<close>

record Author =
  username :: jsval

record 'r Message =
  platform :: jsval
  "text" :: jsval
  author :: "Author option"
  raw :: 'r

text \<open>
  \<open>String.prototype.trim\<close> removes leading and trailing WhiteSpace and LineTerminator
  code units (ECMAScript): TAB, LF, VT, FF, CR, SP, NBSP, U+1680, U+2000 to U+200A, LS, PS,
  U+202F, U+205F, U+3000 and U+FEFF.
\<close>

definition isWhiteSpace :: "16 word \<Rightarrow> bool" where
  "isWhiteSpace c \<longleftrightarrow>
     c \<in> {0x9, 0xA, 0xB, 0xC, 0xD, 0x20, 0xA0, 0x1680, 0x2028, 0x2029, 0x202F, 0x205F,
          0x3000, 0xFEFF}
     \<or> (0x2000 \<le> c \<and> c \<le> 0x200A)"

definition trim :: "jsstring \<Rightarrow> jsstring" where
  "trim s = rev (dropWhile isWhiteSpace (rev (dropWhile isWhiteSpace s)))"

text \<open>
  The \<open>replace\<close> call of \<open>validateMessage\<close>, with a global character class of three
  characters and the empty replacement: every backslash (0x5C), less-than sign (0x3C) and
  greater-than sign (0x3E) is removed.
\<close>

definition isHarmful :: "16 word \<Rightarrow> bool" where
  "isHarmful c \<longleftrightarrow> c = 0x5C \<or> c = 0x3C \<or> c = 0x3E"

definition stripHarmful :: "jsstring \<Rightarrow> jsstring" where
  "stripHarmful s = filter (\<lambda>c. \<not> isHarmful c) s"

text \<open>The chain \<open>trim\<close>, \<open>replace\<close>, \<open>slice(0, 2000)\<close> applied to \<open>message.text\<close>.\<close>

definition sanitize :: "jsstring \<Rightarrow> jsstring" where
  "sanitize s = take 2000 (stripHarmful (trim s))"

text \<open>
  \<open>validateMessage\<close> throws or mutates \<open>message.text\<close> in place; the model returns the
  error or the mutated message. A truthy \<open>message.text\<close> whose \<open>typeof\<close> is \<open>'string'\<close> is a
  \<open>JStr\<close> with at least one code unit.
\<close>

definition validateMessage :: "'r Message \<Rightarrow> JSError + 'r Message" where
  "validateMessage m =
     (if \<not> truthy (platform m) then Inl (Error ''Message must have a platform'')
      else case text m of
        JStr s \<Rightarrow>
          (if s = [] then Inl (Error ''Message must have valid text content'')
           else case author m of
             None \<Rightarrow> Inl (Error ''Message must have an author with a username'')
           | Some a \<Rightarrow>
               (if \<not> truthy (username a)
                then Inl (Error ''Message must have an author with a username'')
                else Inr (m\<lparr>text := JStr (sanitize s)\<rparr>)))
      | _ \<Rightarrow> Inl (Error ''Message must have valid text content''))"

section \<open>The message queue and its processor\<close>

record ActionResult =
  resultText :: jsstring
  shouldSendMessage :: bool
  "context" :: "jsstring option"

text \<open>
  The fields of the agent that \<open>processMessage\<close> and \<open>processMessageQueue\<close> read and write.
  \<open>world\<close> is everything else \<open>processMessageInternal\<close> acts on (the caches, the rate
  limits, the platforms, the memory store); \<open>processMessageInternal\<close> itself, whose
  collaborators are outside the repository's sources, is the parameter \<open>h\<close>: it takes a
  message and the world and either throws or returns a result.

  \<open>incoming\<close> is the part of the environment that overlaps a drain: while
  \<open>processMessageQueue\<close> awaits \<open>processMessageInternal\<close>, other callers can call
  \<open>processMessage\<close>. The first list holds the messages so submitted during the next await,
  the second list those of the await after that, and so on; when the lists are used up, no
  further call overlaps.
\<close>

record ('r, 'w) Agent =
  messageQueue :: "'r Message list"
  processingQueue :: bool
  world :: 'w
  incoming :: "'r Message list list"

type_synonym ('r, 'w) handler = "'r Message \<Rightarrow> 'w \<Rightarrow> (JSError + ActionResult) \<times> 'w"

text \<open>
  What a \<open>processMessage\<close> call that overlaps a drain does to the agent. It finds
  \<open>processingQueue\<close> true, so it either throws at validation, or pushes the sanitized message
  and returns the acknowledgment to its own caller.
\<close>

definition overlappingCall :: "'r Message \<Rightarrow> ('r, 'w) Agent \<Rightarrow> ('r, 'w) Agent" where
  "overlappingCall m s =
     (case validateMessage m of
        Inl e \<Rightarrow> s
      | Inr m' \<Rightarrow> s\<lparr>messageQueue := messageQueue s @ [m']\<rparr>)"

text \<open>
  \<open>await this.processMessageInternal(message)\<close>: the handler acts on the world, and the calls
  that overlap this await run before the loop goes on, whether the handler returns or throws.
\<close>

definition awaitInternal ::
  "('r, 'w) handler \<Rightarrow> 'r Message \<Rightarrow> ('r, 'w) Agent \<Rightarrow> (JSError + ActionResult) \<times> ('r, 'w) Agent"
where
  "awaitInternal h m s =
     (case h m (world s) of
        (out, w') \<Rightarrow>
          (out,
           (case incoming s of
              [] \<Rightarrow> s\<lparr>world := w'\<rparr>
            | batch # later \<Rightarrow> fold overlappingCall batch (s\<lparr>world := w', incoming := later\<rparr>))))"

text \<open>
  The \<open>while (this.messageQueue.length > 0)\<close> loop of \<open>processMessageQueue\<close>:
  \<open>shift\<close> the first message, await its processing, keep the result; a throw leaves the loop.
  The queue is read again after each await, so messages pushed meanwhile are drained too.
\<close>

function drainLoop ::
  "('r, 'w) handler \<Rightarrow> ActionResult \<Rightarrow> ('r, 'w) Agent \<Rightarrow> (JSError + ActionResult) \<times> ('r, 'w) Agent"
where
  "drainLoop h result s =
     (case messageQueue s of
        [] \<Rightarrow> (Inr result, s)
      | m # rest \<Rightarrow>
          (case awaitInternal h m (s\<lparr>messageQueue := rest\<rparr>) of
             (Inl e, s1) \<Rightarrow> (Inl e, s1)
           | (Inr r, s1) \<Rightarrow> drainLoop h r s1))"
  by pat_completeness auto
termination
proof -
  have grow: "length (messageQueue (fold overlappingCall b s)) \<le> length (messageQueue s) + length b
      \<and> incoming (fold overlappingCall b s) = incoming s"
    for b and s :: "('r, 'w) Agent"
  proof (induction b arbitrary: s)
    case Nil
    show ?case by simp
  next
    case (Cons m b)
    have "length (messageQueue (overlappingCall m s)) \<le> Suc (length (messageQueue s))"
      and "incoming (overlappingCall m s) = incoming s"
      by (simp_all add: overlappingCall_def split: sum.splits)
    with Cons[of "overlappingCall m s"] show ?case by simp
  qed
  have less: "length (messageQueue s1) + length (concat (incoming s1))
      \<le> length (messageQueue s) + length (concat (incoming s))"
    if eq: "awaitInternal h m s = (out, s1)"
    for h :: "('r, 'w) handler" and m s out s1
  proof (cases "incoming s")
    case Nil
    with eq show ?thesis by (auto simp: awaitInternal_def split: prod.splits)
  next
    case (Cons b later)
    obtain w' where s1: "s1 = fold overlappingCall b (s\<lparr>world := w', incoming := later\<rparr>)"
      using eq Cons by (auto simp: awaitInternal_def split: prod.splits)
    show ?thesis
      using grow[of b "s\<lparr>world := w', incoming := later\<rparr>"] Cons unfolding s1 by simp
  qed
  show ?thesis
  proof (relation "measure (\<lambda>(h, result, s).
      length (messageQueue s) + length (concat (incoming s)))", goal_cases)
    case 1
    show ?case by simp
  next
    case (2 h result s m rest out s1 r)
    from less[OF 2(2)[symmetric]] 2(1) show ?case by simp
  qed
qed

declare drainLoop.simps [simp del]

text \<open>\<open>try { ... } finally { this.processingQueue = false; }\<close> runs on both exits.\<close>

definition processMessageQueue ::
  "('r, 'w) handler \<Rightarrow> ('r, 'w) Agent \<Rightarrow> (JSError + ActionResult) \<times> ('r, 'w) Agent"
where
  "processMessageQueue h s =
     (case drainLoop h \<lparr>resultText = js '''', shouldSendMessage = False, context = None\<rparr>
             (s\<lparr>processingQueue := True\<rparr>) of
        (out, s') \<Rightarrow> (out, s'\<lparr>processingQueue := False\<rparr>))"

definition queuedAck :: ActionResult where
  "queuedAck = \<lparr>resultText = js ''Message queued for processing'', shouldSendMessage = False,
                context = None\<rparr>"

definition processMessage ::
  "('r, 'w) handler \<Rightarrow> 'r Message \<Rightarrow> ('r, 'w) Agent \<Rightarrow> (JSError + ActionResult) \<times> ('r, 'w) Agent"
where
  "processMessage h m s =
     (case validateMessage m of
        Inl e \<Rightarrow> (Inl e, s)
      | Inr m' \<Rightarrow>
          (let s1 = s\<lparr>messageQueue := messageQueue s @ [m']\<rparr>
           in if \<not> processingQueue s1 then processMessageQueue h s1
              else (Inr queuedAck, s1)))"




section \<open>Rate limiter and retry executor\<close>

record RateLimitConfig =
  maxRequests :: int
  timeWindow :: int

record RetryConfig =
  maxRetries :: nat
  baseDelay :: int
  maxDelay :: int

definition RATE_LIMIT_CONFIG :: RateLimitConfig where
  "RATE_LIMIT_CONFIG = \<lparr>maxRequests = 50, timeWindow = 60000\<rparr>"

definition RETRY_CONFIG :: RetryConfig where
  "RETRY_CONFIG = \<lparr>maxRetries = 3, baseDelay = 1000, maxDelay = 5000\<rparr>"

record RateLimitWindow =
  count :: int
  resetTime :: int

text \<open>
  What \<open>checkRateLimit\<close> and \<open>withRetry\<close> read and write: the map \<open>rateLimits\<close> of the
  agent, the clock that \<open>Date.now()\<close> reads (milliseconds) and that an awaited timer
  advances, and the upstream services the wrapped operation talks to. An operation is a
  function on the upstream state that throws or returns. \<open>trace\<close> records, in order, what
  \<open>withRetry\<close> did: a rejection by the rate limiter, an invocation of the operation, a
  sleep of so many milliseconds.
\<close>

datatype event = Rejected | Invoked | Slept int

record 'u RetryState =
  rateLimits :: "jsstring \<rightharpoonup> RateLimitWindow"
  clock :: int
  upstream :: 'u
  trace :: "event list"

type_synonym ('u, 'a) operation = "'u \<Rightarrow> (JSError + 'a) \<times> 'u"

text \<open>
  \<open>limit.count++\<close> mutates the object stored in the map, so the map entry changes.
\<close>

definition checkRateLimit :: "jsstring \<Rightarrow> 'u RetryState \<Rightarrow> bool \<times> 'u RetryState" where
  "checkRateLimit key s =
     (let now = clock s;
          fresh = (True, s\<lparr>rateLimits := (rateLimits s)
                     (key \<mapsto> \<lparr>count = 1, resetTime = now + timeWindow RATE_LIMIT_CONFIG\<rparr>)\<rparr>)
      in case rateLimits s key of
           None \<Rightarrow> fresh
         | Some limit \<Rightarrow>
             if now > resetTime limit then fresh
             else if count limit \<ge> maxRequests RATE_LIMIT_CONFIG then (False, s)
             else (True, s\<lparr>rateLimits := (rateLimits s)
                             (key \<mapsto> limit\<lparr>count := count limit + 1\<rparr>)\<rparr>))"

text \<open>\<open>String.prototype.includes\<close>: the argument occurs as a contiguous run of code units.\<close>

fun str_includes :: "'a list \<Rightarrow> 'a list \<Rightarrow> bool" where
  "str_includes [] sub = (sub = [])"
| "str_includes (c # cs) sub = (take (length sub) (c # cs) = sub \<or> str_includes cs sub)"

definition shouldRetry :: "JSError \<Rightarrow> bool" where
  "shouldRetry error \<longleftrightarrow>
     name error = js ''NetworkError''
     \<or> str_includes (message error) (js ''rate limit'')
     \<or> (case response error of
           None \<Rightarrow> False
         | Some r \<Rightarrow> status r \<in> set [429, 503, 502])"

text \<open>\<open>Math.min(maxDelay, baseDelay * Math.pow(2, attempt))\<close>\<close>

definition waitTime :: "nat \<Rightarrow> int" where
  "waitTime attempt = min (maxDelay RETRY_CONFIG) (baseDelay RETRY_CONFIG * 2 ^ attempt)"

text \<open>\<open>await new Promise(resolve => setTimeout(resolve, waitTime))\<close>\<close>

definition sleep :: "int \<Rightarrow> 'u RetryState \<Rightarrow> 'u RetryState" where
  "sleep ms s = s\<lparr>clock := clock s + ms, trace := trace s @ [Slept ms]\<rparr>"

text \<open>\<open>await operation()\<close>\<close>

definition invoke ::
  "('u, 'a) operation \<Rightarrow> 'u RetryState \<Rightarrow> (JSError + 'a) \<times> 'u RetryState" where
  "invoke operation s =
     (case operation (upstream s) of
        (out, u') \<Rightarrow> (out, s\<lparr>upstream := u', trace := trace s @ [Invoked]\<rparr>))"

text \<open>
  The \<open>for (let attempt = 0; attempt < maxRetries; attempt++)\<close> loop of \<open>withRetry\<close>, from
  the given attempt index on. Both the \<open>continue\<close> after a rejection and the end of the
  \<open>catch\<close> block reach the loop's \<open>attempt++\<close>. After the loop,
  \<open>throw lastError || new Error('Operation failed after all retries')\<close>.
\<close>

function withRetryLoop ::
  "('u, 'a) operation \<Rightarrow> jsstring \<Rightarrow> nat \<Rightarrow> JSError option \<Rightarrow> 'u RetryState
     \<Rightarrow> (JSError + 'a) \<times> 'u RetryState"
where
  "withRetryLoop operation key attempt lastError s =
     (if attempt < maxRetries RETRY_CONFIG then
        (case checkRateLimit key s of
           (False, s1) \<Rightarrow>
             withRetryLoop operation key (attempt + 1) lastError
               (sleep (waitTime attempt) (s1\<lparr>trace := trace s1 @ [Rejected]\<rparr>))
         | (True, s1) \<Rightarrow>
             (case invoke operation s1 of
                (Inr v, s2) \<Rightarrow> (Inr v, s2)
              | (Inl error, s2) \<Rightarrow>
                  if \<not> shouldRetry error then (Inl error, s2)
                  else withRetryLoop operation key (attempt + 1) (Some error)
                         (sleep (waitTime attempt) s2)))
      else (Inl (case lastError of
                   Some e \<Rightarrow> e
                 | None \<Rightarrow> Error ''Operation failed after all retries''), s))"
  by pat_completeness auto
termination
  by (relation "measure (\<lambda>(operation, key, attempt, lastError, s).
        maxRetries RETRY_CONFIG - attempt)") auto

declare withRetryLoop.simps [simp del]

definition withRetry ::
  "('u, 'a) operation \<Rightarrow> jsstring \<Rightarrow> 'u RetryState \<Rightarrow> (JSError + 'a) \<times> 'u RetryState" where
  "withRetry operation key s = withRetryLoop operation key 0 None s"

text \<open>
  Successive calls of \<open>checkRateLimit\<close> for one key, the clock reading the given instant at
  each call: the answers in order, and the state after the last call.
\<close>

fun checkRateLimitAt ::
  "jsstring \<Rightarrow> int list \<Rightarrow> 'u RetryState \<Rightarrow> bool list \<times> 'u RetryState" where
  "checkRateLimitAt key [] s = ([], s)"
| "checkRateLimitAt key (t # ts) s =
     (case checkRateLimit key (s\<lparr>clock := t\<rparr>) of
        (b, s') \<Rightarrow> (case checkRateLimitAt key ts s' of (bs, s'') \<Rightarrow> (b # bs, s'')))"

text \<open>
  The classification of errors in the words of the retry contract, to compare
  \<open>shouldRetry\<close> with: a text mentions another when that one occurs in it as a contiguous
  part, and an error is transient when it is a \<open>NetworkError\<close>, or its message mentions
  \<open>rate limit\<close>, or it carries an HTTP status 429, 502 or 503. Every other error is
  permanent.
\<close>

definition mentions :: "jsstring \<Rightarrow> jsstring \<Rightarrow> bool" where
  "mentions s part \<longleftrightarrow> (\<exists>pre post. s = pre @ part @ post)"

definition transientError :: "JSError \<Rightarrow> bool" where
  "transientError e \<longleftrightarrow>
     name e = js ''NetworkError''
     \<or> mentions (message e) (js ''rate limit'')
     \<or> (\<exists>r. response e = Some r \<and> (status r = 429 \<or> status r = 502 \<or> status r = 503))"

text \<open>
  The operation throws a transient error on its first \<open>n\<close> invocations and succeeds on the
  next one, with the given value and final upstream state.
\<close>

fun failsThenSucceeds :: "nat \<Rightarrow> ('u, 'a) operation \<Rightarrow> 'u \<Rightarrow> ('a \<times> 'u) option" where
  "failsThenSucceeds 0 operation u =
     (case operation u of (Inr v, u') \<Rightarrow> Some (v, u') | (Inl e, u') \<Rightarrow> None)"
| "failsThenSucceeds (Suc n) operation u =
     (case operation u of
        (Inl e, u') \<Rightarrow> if transientError e then failsThenSucceeds n operation u' else None
      | (Inr v, u') \<Rightarrow> None)"

text \<open>
  The rate limiter rejects the next \<open>n\<close> attempts of \<open>withRetry\<close>, from the given attempt
  index on: each check returns false, and the executor sleeps \<open>waitTime\<close> of the attempt
  before the next check.
\<close>

fun rejectsAttempts :: "nat \<Rightarrow> nat \<Rightarrow> jsstring \<Rightarrow> 'u RetryState \<Rightarrow> bool" where
  "rejectsAttempts attempt 0 key s = True"
| "rejectsAttempts attempt (Suc n) key s =
     (case checkRateLimit key s of
        (admitted, s1) \<Rightarrow>
          \<not> admitted
          \<and> rejectsAttempts (attempt + 1) n key
               (sleep (waitTime attempt) (s1\<lparr>trace := trace s1 @ [Rejected]\<rparr>)))"

text \<open>
  The rate limiter admits the next \<open>n\<close> attempts of \<open>withRetry\<close>, from the given attempt
  index on: each check returns true, the executor sleeping \<open>waitTime\<close> of the attempt
  between one check and the next (as it does after a retryable failure). The checks read
  and write \<open>rateLimits\<close> and \<open>clock\<close> only, so this does not depend on the operation.
\<close>

fun admitsAttempts :: "nat \<Rightarrow> nat \<Rightarrow> jsstring \<Rightarrow> 'u RetryState \<Rightarrow> bool" where
  "admitsAttempts attempt 0 key s = True"
| "admitsAttempts attempt (Suc n) key s =
     (case checkRateLimit key s of
        (admitted, s1) \<Rightarrow>
          admitted \<and> admitsAttempts (attempt + 1) n key (sleep (waitTime attempt) s1))"

text \<open>
  A condition on the state alone under which every attempt is admitted, whatever the clock
  does: the key has no window, or its window has expired, or its window has room for
  \<open>maxRetries\<close> more requests.
\<close>

definition admitting :: "jsstring \<Rightarrow> 'u RetryState \<Rightarrow> bool" where
  "admitting key s \<longleftrightarrow>
     (case rateLimits s key of
        None \<Rightarrow> True
      | Some limit \<Rightarrow>
          clock s > resetTime limit
          \<or> count limit + int (maxRetries RETRY_CONFIG) \<le> maxRequests RATE_LIMIT_CONFIG)"

text \<open>The window stored for the key has room for \<open>k\<close> more requests.\<close>

definition hasRoom :: "int \<Rightarrow> jsstring \<Rightarrow> 'u RetryState \<Rightarrow> bool" where
  "hasRoom k key s \<longleftrightarrow>
     (case rateLimits s key of
        None \<Rightarrow> False
      | Some limit \<Rightarrow> count limit + k \<le> maxRequests RATE_LIMIT_CONFIG)"

section \<open>Action dispatch\<close>

text \<open>
  An action as \<open>Agent.processMessage\<close> of the core agent uses it: its name, its optional
  \<open>shouldExecute\<close> method (the loop tests that it exists before calling it; the base class
  returns false) and its \<open>execute\<close> method, which acts on the world and throws or returns a
  result. \<open>'au\<close> is the author passed along with the text.
\<close>

record ('au, 'w) Action =
  actionName :: jsstring
  shouldExecute :: "(jsstring \<Rightarrow> bool) option"
  execute :: "jsstring \<Rightarrow> 'au \<Rightarrow> 'w \<Rightarrow> (JSError + ActionResult) \<times> 'w"

text \<open>\<open>action.shouldExecute && action.shouldExecute(userMessage)\<close>\<close>

definition matches :: "jsstring \<Rightarrow> ('au, 'w) Action \<Rightarrow> bool" where
  "matches userMessage action =
     (case shouldExecute action of None \<Rightarrow> False | Some p \<Rightarrow> p userMessage)"

text \<open>
  How the loop over the actions ends: with \<open>return result.text\<close> after the cast was
  published, with a throw (of \<open>execute\<close> or of \<open>publishCast\<close>; the enclosing \<open>catch\<close> logs and
  rethrows), or by falling through to response generation with the context collected.
\<close>

datatype dispatch = Replied jsstring | Threw JSError | FellThrough jsstring

text \<open>
  The loop \<open>for (const action of Object.values(this.actions))\<close> of \<open>processMessage\<close>, over
  the actions in registration order. \<open>publishCast\<close> is the parameter \<open>publish\<close>, which throws
  (\<open>Some\<close>) or not. The second component of the result lists the names of the actions
  whose \<open>execute\<close> was invoked, in order. The context grows by a newline (0x0A) and the
  result's context when that is truthy.
\<close>

fun dispatchActions ::
  "(jsstring \<Rightarrow> 'w \<Rightarrow> JSError option \<times> 'w) \<Rightarrow> jsstring \<Rightarrow> 'au \<Rightarrow> ('au, 'w) Action list
     \<Rightarrow> jsstring \<Rightarrow> 'w \<Rightarrow> dispatch \<times> jsstring list \<times> 'w"
where
  "dispatchActions publish userMessage au [] ctx w = (FellThrough ctx, [], w)"
| "dispatchActions publish userMessage au (action # actions) ctx w =
     (if matches userMessage action then
        (case execute action userMessage au w of
           (Inl e, w1) \<Rightarrow> (Threw e, [actionName action], w1)
         | (Inr result, w1) \<Rightarrow>
             if shouldSendMessage result then
               (case publish (resultText result) w1 of
                  (Some e, w2) \<Rightarrow> (Threw e, [actionName action], w2)
                | (None, w2) \<Rightarrow> (Replied (resultText result), [actionName action], w2))
             else
               (case dispatchActions publish userMessage au actions
                       (case context result of
                          None \<Rightarrow> ctx
                        | Some c \<Rightarrow> if c \<noteq> [] then ctx @ [0x0A] @ c else ctx) w1 of
                  (d, executed, w2) \<Rightarrow> (d, actionName action # executed, w2)))
      else dispatchActions publish userMessage au actions ctx w)"

section \<open>Memory store\<close>

text \<open>
  Modelled from the spec: the backing key-value store (the \<open>AGENT_KV\<close> binding, a platform
  service that is not part of the sources), with the interface the spec gives it:
  \<open>get(key)\<close> returns a string or null, \<open>put(key, value, {expirationTtl})\<close> stores a value
  that expires \<open>expirationTtl\<close> seconds later. \<open>kvNow\<close> is the store's clock in seconds;
  \<open>getFails\<close> and \<open>putFails\<close> say whether a \<open>get\<close> or a \<open>put\<close> throws.
\<close>

record KV =
  entries :: "jsstring \<rightharpoonup> (jsstring \<times> int)"
  kvNow :: int
  getFails :: bool
  putFails :: bool

definition kv_get :: "KV \<Rightarrow> jsstring \<Rightarrow> JSError + jsstring option" where
  "kv_get k key =
     (if getFails k then Inl (Error ''KV GET failed'')
      else Inr (case entries k key of
                  None \<Rightarrow> None
                | Some (v, expires) \<Rightarrow> if kvNow k < expires then Some v else None))"

definition kv_put :: "KV \<Rightarrow> jsstring \<Rightarrow> jsstring \<Rightarrow> int \<Rightarrow> JSError + KV" where
  "kv_put k key v expirationTtl =
     (if putFails k then Inl (Error ''KV PUT failed'')
      else Inr (k\<lparr>entries := (entries k)(key \<mapsto> (v, kvNow k + expirationTtl))\<rparr>))"

text \<open>
  \<open>JSON.stringify\<close> and \<open>JSON.parse\<close> on lists of records of type \<open>'t\<close>, as parameters: both
  can throw.
\<close>

record 't JSON =
  stringify :: "'t list \<Rightarrow> JSError + jsstring"
  parse :: "jsstring \<Rightarrow> JSError + 't list"

definition MEMORY_TYPES_CONVERSATION :: jsstring where
  "MEMORY_TYPES_CONVERSATION = js ''conversation''"

definition MEMORY_TYPES_LONG_TERM :: jsstring where
  "MEMORY_TYPES_LONG_TERM = js ''long_term''"

definition TTL_CONVERSATION :: int where
  "TTL_CONVERSATION = 60 * 60 * 24"

definition TTL_LONG_TERM :: int where
  "TTL_LONG_TERM = 60 * 60 * 24 * 30"

record Env =
  AGENT_KV :: "KV option"

record Memory =
  kv :: "KV option"
  isAvailable :: bool

text \<open>\<open>this.kv = env?.AGENT_KV; this.isAvailable = Boolean(this.kv);\<close>\<close>

definition newMemory :: "Env option \<Rightarrow> Memory" where
  "newMemory env =
     (let k = (case env of None \<Rightarrow> None | Some e \<Rightarrow> AGENT_KV e)
      in \<lparr>kv = k, isAvailable = (k \<noteq> None)\<rparr>)"

text \<open>
  \<open>getConversations\<close> and \<open>getLongTerm\<close>. The result of an \<open>async\<close> function is a sum:
  \<open>Inl\<close> would be a rejected promise. Inside \<open>try\<close>, \<open>this.kv.get\<close> on a missing \<open>kv\<close> is a
  \<open>TypeError\<close>, and \<open>get\<close> and \<open>JSON.parse\<close> may throw; \<open>catch\<close> logs the error and returns
  the empty list. \<open>data\<close> is falsy when it is null or the empty string.
\<close>

definition getConversations :: "'t JSON \<Rightarrow> Memory \<Rightarrow> jsstring \<Rightarrow> JSError + 't list" where
  "getConversations J mem userId =
     (if \<not> isAvailable mem then Inr []
      else
        (let key = MEMORY_TYPES_CONVERSATION @ js '':'' @ userId;
             attempt =
               (case kv mem of
                  None \<Rightarrow> Inl (Error ''Cannot read properties of undefined'')
                | Some k \<Rightarrow>
                    (case kv_get k key of
                       Inl e \<Rightarrow> Inl e
                     | Inr data \<Rightarrow>
                         (case data of
                            None \<Rightarrow> Inr []
                          | Some d \<Rightarrow> if d \<noteq> [] then parse J d else Inr [])))
         in case attempt of Inl error \<Rightarrow> Inr [] | Inr v \<Rightarrow> Inr v))"

definition getLongTerm :: "'t JSON \<Rightarrow> Memory \<Rightarrow> jsstring \<Rightarrow> JSError + 't list" where
  "getLongTerm J mem userId =
     (if \<not> isAvailable mem then Inr []
      else
        (let key = MEMORY_TYPES_LONG_TERM @ js '':'' @ userId;
             attempt =
               (case kv mem of
                  None \<Rightarrow> Inl (Error ''Cannot read properties of undefined'')
                | Some k \<Rightarrow>
                    (case kv_get k key of
                       Inl e \<Rightarrow> Inl e
                     | Inr data \<Rightarrow>
                         (case data of
                            None \<Rightarrow> Inr []
                          | Some d \<Rightarrow> if d \<noteq> [] then parse J d else Inr [])))
         in case attempt of Inl error \<Rightarrow> Inr [] | Inr v \<Rightarrow> Inr v))"

text \<open>
  \<open>storeConversation\<close> and \<open>storeLongTerm\<close>. \<open>existing\<close> is an array, which is truthy even when
  empty, so the list written is \<open>[...existing, message]\<close>. A throw of the read, of
  \<open>JSON.stringify\<close> or of \<open>put\<close> is caught and logged, and the store is left as it was.
\<close>

definition storeConversation ::
  "'t JSON \<Rightarrow> Memory \<Rightarrow> jsstring \<Rightarrow> 't \<Rightarrow> (JSError + unit) \<times> Memory" where
  "storeConversation J mem userId msg =
     (if \<not> isAvailable mem then (Inr (), mem)
      else
        (let key = MEMORY_TYPES_CONVERSATION @ js '':'' @ userId;
             attempt =
               (case getConversations J mem userId of
                  Inl e \<Rightarrow> Inl e
                | Inr existing \<Rightarrow>
                    (case stringify J (existing @ [msg]) of
                       Inl e \<Rightarrow> Inl e
                     | Inr v \<Rightarrow>
                         (case kv mem of
                            None \<Rightarrow> Inl (Error ''Cannot read properties of undefined'')
                          | Some k \<Rightarrow> kv_put k key v TTL_CONVERSATION)))
         in case attempt of
              Inl error \<Rightarrow> (Inr (), mem)
            | Inr k' \<Rightarrow> (Inr (), mem\<lparr>kv := Some k'\<rparr>)))"

definition storeLongTerm ::
  "'t JSON \<Rightarrow> Memory \<Rightarrow> jsstring \<Rightarrow> 't \<Rightarrow> (JSError + unit) \<times> Memory" where
  "storeLongTerm J mem userId memory =
     (if \<not> isAvailable mem then (Inr (), mem)
      else
        (let key = MEMORY_TYPES_LONG_TERM @ js '':'' @ userId;
             attempt =
               (case getLongTerm J mem userId of
                  Inl e \<Rightarrow> Inl e
                | Inr existing \<Rightarrow>
                    (case stringify J (existing @ [memory]) of
                       Inl e \<Rightarrow> Inl e
                     | Inr v \<Rightarrow>
                         (case kv mem of
                            None \<Rightarrow> Inl (Error ''Cannot read properties of undefined'')
                          | Some k \<Rightarrow> kv_put k key v TTL_LONG_TERM)))
         in case attempt of
              Inl error \<Rightarrow> (Inr (), mem)
            | Inr k' \<Rightarrow> (Inr (), mem\<lparr>kv := Some k'\<rparr>)))"

text \<open>The store's clock moves on by the given number of seconds.\<close>

definition elapse :: "int \<Rightarrow> Memory \<Rightarrow> Memory" where
  "elapse seconds mem =
     mem\<lparr>kv := (case kv mem of None \<Rightarrow> None | Some k \<Rightarrow> Some (k\<lparr>kvNow := kvNow k + seconds\<rparr>))\<rparr>"


section \<open>Concrete messages, handlers and agents\<close>

definition exampleMessage :: "unit Message" where
  "exampleMessage =
     \<lparr>platform = JStr (js ''farcaster''), text = JStr (js ''  <hello>  ''),
      author = Some \<lparr>username = JStr (js ''a'')\<rparr>, raw = ()\<rparr>"

definition emptyTextMessage :: "unit Message" where
  "emptyTextMessage =
     \<lparr>platform = JStr (js ''farcaster''), text = JStr [],
      author = Some \<lparr>username = JStr (js ''a'')\<rparr>, raw = ()\<rparr>"

definition noPlatformMessage :: "unit Message" where
  "noPlatformMessage =
     \<lparr>platform = JUndefined, text = JStr (js ''hello''),
      author = Some \<lparr>username = JStr (js ''a'')\<rparr>, raw = ()\<rparr>"

text \<open>A handler that answers with the text of the message and counts its calls in the world.\<close>

definition echoHandler :: "(unit, nat) handler" where
  "echoHandler m w =
     (Inr \<lparr>resultText = (case text m of JStr s \<Rightarrow> s | _ \<Rightarrow> []), shouldSendMessage = True,
           context = None\<rparr>, Suc w)"

definition idleAgent :: "(unit, nat) Agent" where
  "idleAgent = \<lparr>messageQueue = [], processingQueue = False, world = 0, incoming = []\<rparr>"

definition drainingAgent :: "(unit, nat) Agent" where
  "drainingAgent = \<lparr>messageQueue = [], processingQueue = True, world = 0, incoming = []\<rparr>"

definition failingHandler :: "(unit, nat) handler" where
  "failingHandler m w = (Inl (Error ''Unsupported platform''), Suc w)"



text \<open>
  Upstream states count the invocations. \<open>okOp\<close> always succeeds, \<open>permanentOp\<close> always
  throws a plain error, \<open>flakyOp\<close> throws a network error on its first two invocations and
  succeeds on the third.
\<close>

definition okOp :: "(nat, jsstring) operation" where
  "okOp u = (Inr (js ''ok''), Suc u)"

definition permanentOp :: "(nat, jsstring) operation" where
  "permanentOp u = (Inl (Error ''Bad request''), Suc u)"

definition networkError :: JSError where
  "networkError = \<lparr>name = js ''NetworkError'', message = js ''socket hang up'', response = None\<rparr>"

definition flakyOp :: "(nat, jsstring) operation" where
  "flakyOp u = (if u < 2 then Inl networkError else Inr (js ''ok''), Suc u)"

definition freshState :: "nat RetryState" where
  "freshState = \<lparr>rateLimits = Map.empty, clock = 0, upstream = 0, trace = []\<rparr>"

text \<open>The window of \<open>llm-api\<close> is full and lasts for another minute.\<close>

definition fullState :: "nat RetryState" where
  "fullState =
     \<lparr>rateLimits = [js ''llm-api'' \<mapsto> \<lparr>count = 50, resetTime = 60000\<rparr>], clock = 0,
      upstream = 0, trace = []\<rparr>"

text \<open>
  Three actions over a world that logs what was executed and published: \<open>baseAction\<close> keeps
  the base class's \<open>shouldExecute\<close>, \<open>lookupAction\<close> matches every text and only supplies
  context, \<open>pingAction\<close> matches texts containing \<open>ping\<close> and answers \<open>pong\<close>.
\<close>

definition baseAction :: "(unit, jsstring list) Action" where
  "baseAction =
     \<lparr>actionName = js ''base'', shouldExecute = Some (\<lambda>t. False),
      execute = (\<lambda>t au w. (Inl (Error ''Action must implement execute method''), w))\<rparr>"

definition lookupAction :: "(unit, jsstring list) Action" where
  "lookupAction =
     \<lparr>actionName = js ''lookup'', shouldExecute = Some (\<lambda>t. True),
      execute = (\<lambda>t au w.
        (Inr \<lparr>resultText = [], shouldSendMessage = False, context = Some (js ''price: 42'')\<rparr>,
         w @ [js ''lookup'']))\<rparr>"

definition pingAction :: "(unit, jsstring list) Action" where
  "pingAction =
     \<lparr>actionName = js ''ping'', shouldExecute = Some (\<lambda>t. str_includes t (js ''ping'')),
      execute = (\<lambda>t au w.
        (Inr \<lparr>resultText = js ''pong'', shouldSendMessage = True, context = None\<rparr>,
         w @ [js ''ping'']))\<rparr>"

definition publishOk :: "jsstring \<Rightarrow> jsstring list \<Rightarrow> JSError option \<times> jsstring list" where
  "publishOk t w = (None, w @ [t])"

text \<open>
  A codec for lists of single code units between square brackets, an available store that
  is empty at second 0, and the memory built on it.
\<close>

definition bracketJSON :: "16 word JSON" where
  "bracketJSON =
     \<lparr>stringify = (\<lambda>xs. Inr ([0x5B] @ xs @ [0x5D])),
      parse = (\<lambda>d. case d of
                 [] \<Rightarrow> Inl (Error ''Unexpected end of JSON input'')
               | c # cs \<Rightarrow>
                   if c = 0x5B \<and> cs \<noteq> [] \<and> last cs = 0x5D then Inr (butlast cs)
                   else Inl (Error ''Unexpected token''))\<rparr>"

definition emptyKV :: KV where
  "emptyKV = \<lparr>entries = Map.empty, kvNow = 0, getFails = False, putFails = False\<rparr>"

definition exampleMemory :: Memory where
  "exampleMemory = newMemory (Some \<lparr>AGENT_KV = Some emptyKV\<rparr>)"

definition brokenMemory :: Memory where
  "brokenMemory = newMemory (Some \<lparr>AGENT_KV = Some (emptyKV\<lparr>getFails := True, putFails := True\<rparr>)\<rparr>)"

text \<open>The memory after one turn was stored for user 42 at second 0.\<close>

definition oneTurnMemory :: Memory where
  "oneTurnMemory = snd (storeConversation bracketJSON exampleMemory (js ''42'') 0x61)"

text \<open>
  Errors of each transient kind, and operations that throw two of them and then succeed;
  \<open>serverErrorOp\<close> always throws an error with status 500.
\<close>

definition rateLimitError :: JSError where
  "rateLimitError =
     \<lparr>name = js ''Error'', message = js ''OpenRouter rate limit exceeded'', response = None\<rparr>"

definition httpError :: "int \<Rightarrow> JSError" where
  "httpError code =
     \<lparr>name = js ''Error'', message = js ''Request failed'', response = Some \<lparr>status = code\<rparr>\<rparr>"

definition throttledOp :: "(nat, jsstring) operation" where
  "throttledOp u =
     (if u = 0 then Inl rateLimitError else if u = 1 then Inl (httpError 429)
      else Inr (js ''ok''), Suc u)"

definition gatewayOp :: "(nat, jsstring) operation" where
  "gatewayOp u =
     (if u = 0 then Inl (httpError 502) else if u = 1 then Inl (httpError 503)
      else Inr (js ''ok''), Suc u)"

definition serverErrorOp :: "(nat, jsstring) operation" where
  "serverErrorOp u = (Inl (httpError 500), Suc u)"

section \<open>Properties of validation and of the queue\<close>

lemma dropWhile_decomp: "\<exists>pre. xs = pre @ dropWhile P xs \<and> (\<forall>c \<in> set pre. P c)"
  by (rule exI[of _ "takeWhile P xs"]) (auto dest: set_takeWhileD)

lemma trim_decomp:
  "\<exists>pre post. s = pre @ trim s @ post \<and> (\<forall>c \<in> set pre. isWhiteSpace c) \<and> (\<forall>c \<in> set post. isWhiteSpace c)"
proof -
  define t where "t = dropWhile isWhiteSpace s"
  define u where "u = dropWhile isWhiteSpace (rev t)"
  obtain pre where pre: "s = pre @ t" "\<forall>c \<in> set pre. isWhiteSpace c"
    unfolding t_def using dropWhile_decomp[of s isWhiteSpace] by blast
  obtain q where q: "rev t = q @ u" "\<forall>c \<in> set q. isWhiteSpace c"
    unfolding u_def using dropWhile_decomp[of "rev t" isWhiteSpace] by blast
  have "rev (rev t) = rev (q @ u)" by (rule arg_cong[OF q(1)])
  then have "t = rev u @ rev q" by simp
  moreover have "trim s = rev u" by (simp add: trim_def t_def u_def)
  ultimately have "s = pre @ trim s @ rev q" using pre(1) by simp
  moreover have "\<forall>c \<in> set (rev q). isWhiteSpace c" using q(2) by simp
  ultimately show ?thesis using pre(2) by blast
qed

lemma trim_ends:
  assumes ne: "trim s \<noteq> []"
  shows "\<not> isWhiteSpace (hd (trim s)) \<and> \<not> isWhiteSpace (last (trim s))"
proof -
  define t where "t = dropWhile isWhiteSpace s"
  define u where "u = dropWhile isWhiteSpace (rev t)"
  have tr: "trim s = rev u" by (simp add: trim_def t_def u_def)
  have u: "u \<noteq> []" using ne tr by simp
  then have 1: "\<not> isWhiteSpace (hd u)" unfolding u_def by (rule hd_dropWhile)
  have A: "\<not> isWhiteSpace (last (trim s))" using 1 u tr by (simp add: last_rev)
  obtain q where q: "rev t = q @ u"
    unfolding u_def using dropWhile_decomp[of "rev t" isWhiteSpace] by blast
  have "rev (rev t) = rev (q @ u)" by (rule arg_cong[OF q])
  then have tt: "t = rev u @ rev q" by simp
  then have t: "t \<noteq> []" using u by simp
  then have 2: "\<not> isWhiteSpace (hd t)" unfolding t_def by (rule hd_dropWhile)
  have "hd t = hd (rev u)" using tt u by simp
  with 2 have "\<not> isWhiteSpace (hd (trim s))" using tr by simp
  with A show ?thesis by simp
qed

lemma sanitize_length: "length (sanitize s) \<le> 2000"
  by (simp add: sanitize_def)







lemma sanitize_example: "sanitize (js ''  <hello>  '') = js ''hello''"
  by (simp add: sanitize_def stripHarmful_def isHarmful_def trim_def isWhiteSpace_def js_def)

lemma validate_example:
  "validateMessage exampleMessage = Inr (exampleMessage\<lparr>text := JStr (js ''hello'')\<rparr>)"
  by (simp add: validateMessage_def exampleMessage_def sanitize_example) (simp add: js_def)

subsection \<open>C6: valid messages are sanitized\<close>

text \<open>
  C6, as stated, fails: a message whose platform and author username are present and whose
  \<open>text\<close> field is a string, namely the empty string, makes \<open>validateMessage\<close> throw
  \<open>Message must have valid text content\<close>, because the guard \<open>!message.text\<close> rejects
  every falsy text.
\<close>

theorem validateMessage_empty_text_counterexample:
  "validateMessage emptyTextMessage = Inl (Error ''Message must have valid text content'')"
  by (simp add: validateMessage_def emptyTextMessage_def js_def)

text \<open>
  C6, amended: for every message with a truthy platform, a non-empty string \<open>text\<close> and an
  author with a truthy username, \<open>validateMessage\<close> does not throw and changes only
  \<open>message.text\<close>. The new text is the old one trimmed (a whitespace prefix and a whitespace
  suffix are cut off, and what remains neither starts nor ends with whitespace), with
  backslash, less-than and greater-than removed, cut to its first 2000 code units; its
  length is at most 2000.
\<close>

theorem validateMessage_valid:
  assumes "truthy (platform m)" and "text m = JStr s" and "s \<noteq> []"
    and "author m = Some a" and "truthy (username a)"
  shows "validateMessage m = Inr (m\<lparr>text := JStr (sanitize s)\<rparr>)
    \<and> sanitize s = take 2000 (filter (\<lambda>c. c \<notin> {0x5C, 0x3C, 0x3E}) (trim s))
    \<and> (\<exists>pre post. s = pre @ trim s @ post
          \<and> (\<forall>c \<in> set pre. isWhiteSpace c) \<and> (\<forall>c \<in> set post. isWhiteSpace c))
    \<and> (trim s \<noteq> [] \<longrightarrow> \<not> isWhiteSpace (hd (trim s)) \<and> \<not> isWhiteSpace (last (trim s)))
    \<and> length (sanitize s) \<le> 2000"
proof -
  have 1: "validateMessage m = Inr (m\<lparr>text := JStr (sanitize s)\<rparr>)"
    using assms by (simp add: validateMessage_def)
  have 2: "sanitize s = take 2000 (filter (\<lambda>c. c \<notin> {0x5C, 0x3C, 0x3E}) (trim s))"
    by (simp add: sanitize_def stripHarmful_def isHarmful_def)
  show ?thesis
    using 1 2 trim_decomp[of s] trim_ends[of s] sanitize_length[of s] by blast
qed

text \<open>
  Witness for C6: the message with platform \<open>farcaster\<close>, author \<open>a\<close> and text
  \<open>hello\<close> between angle brackets and blanks satisfies every hypothesis and comes out with
  the text \<open>hello\<close>.
\<close>

theorem validateMessage_valid_witness:
  "truthy (platform exampleMessage) \<and> text exampleMessage = JStr (js ''  <hello>  '')
   \<and> js ''  <hello>  '' \<noteq> [] \<and> author exampleMessage = Some \<lparr>username = JStr (js ''a'')\<rparr>
   \<and> truthy (username \<lparr>username = JStr (js ''a'')\<rparr>)
   \<and> validateMessage exampleMessage = Inr (exampleMessage\<lparr>text := JStr (js ''hello'')\<rparr>)"
proof -
  have h: "truthy (platform exampleMessage)" "text exampleMessage = JStr (js ''  <hello>  '')"
    "js ''  <hello>  '' \<noteq> []" "author exampleMessage = Some \<lparr>username = JStr (js ''a'')\<rparr>"
    "truthy (username \<lparr>username = JStr (js ''a'')\<rparr>)"
    by (simp_all add: exampleMessage_def js_def)
  show ?thesis
    using h validateMessage_valid[OF h] by (simp add: sanitize_example)
qed

subsection \<open>C7: invalid messages never reach the queue\<close>

text \<open>
  C7: for every message whose platform is missing (falsy), whose text is missing (falsy) or
  not a string, or whose author or author username is missing (falsy), \<open>validateMessage\<close>
  throws, and \<open>processMessage\<close> throws the same error and leaves the agent, its queue
  included, as it was.
\<close>

theorem validateMessage_invalid:
  assumes "\<not> truthy (platform m) \<or> \<not> truthy (text m) \<or> (\<forall>s. text m \<noteq> JStr s)
           \<or> (case author m of None \<Rightarrow> True | Some a \<Rightarrow> \<not> truthy (username a))"
  shows "\<exists>e. validateMessage m = Inl e \<and> processMessage h m s = (Inl e, s)"
proof -
  have "\<exists>e. validateMessage m = Inl e"
    using assms by (auto simp: validateMessage_def split: jsval.splits option.splits)
  then show ?thesis by (auto simp: processMessage_def)
qed

text \<open>
  Witness for C7: a message without platform is rejected with
  \<open>Message must have a platform\<close> and the idle agent is unchanged.
\<close>

theorem validateMessage_invalid_witness:
  "\<not> truthy (platform noPlatformMessage)
   \<and> validateMessage noPlatformMessage = Inl (Error ''Message must have a platform'')
   \<and> processMessage echoHandler noPlatformMessage idleAgent
       = (Inl (Error ''Message must have a platform''), idleAgent)"
proof -
  have h: "\<not> truthy (platform noPlatformMessage)" by (simp add: noPlatformMessage_def)
  have v: "validateMessage noPlatformMessage = Inl (Error ''Message must have a platform'')"
    by (simp add: validateMessage_def noPlatformMessage_def)
  from h have "\<exists>e. validateMessage noPlatformMessage = Inl e
      \<and> processMessage echoHandler noPlatformMessage idleAgent = (Inl e, idleAgent)"
    by (intro validateMessage_invalid) simp
  with h v show ?thesis by auto
qed

subsection \<open>C4: queueing while draining, draining when idle\<close>




subsection \<open>C10: the draining flag is reset\<close>

text \<open>
  C10, as stated, fails in its second half: a \<open>processMessage\<close> call made while the
  processor is draining completes (with the acknowledgment) and leaves \<open>processingQueue\<close>
  true.
\<close>

theorem processMessage_draining_counterexample:
  "processingQueue (snd (processMessage echoHandler exampleMessage drainingAgent))"
  by (simp add: processMessage_def validate_example drainingAgent_def)

text \<open>
  C10, amended: every call of \<open>processMessageQueue\<close> leaves \<open>processingQueue\<close> false,
  whether the drain returns or a message's handling throws. Consequently a \<open>processMessage\<close>
  call made while the processor is idle leaves it idle when it completes, normally or with an
  error, and a later \<open>processMessage\<close> call with a valid message then starts a new drain of
  the messages still queued followed by its own. A \<open>processMessage\<close> call made while the
  processor is draining leaves \<open>processingQueue\<close> true.
\<close>

theorem processingQueue_reset:
  "\<not> processingQueue (snd (processMessageQueue h s))
   \<and> (\<not> processingQueue s \<longrightarrow> \<not> processingQueue (snd (processMessage h m s)))
   \<and> (\<not> processingQueue s \<longrightarrow> validateMessage m2 = Inr m2' \<longrightarrow>
         processMessage h m2 (snd (processMessage h m s)) =
           processMessageQueue h
             ((snd (processMessage h m s))
                \<lparr>messageQueue := messageQueue (snd (processMessage h m s)) @ [m2']\<rparr>))
   \<and> (processingQueue s \<longrightarrow> processingQueue (snd (processMessage h m s)))"
proof -
  have 1: "\<not> processingQueue (snd (processMessageQueue h s))" for s :: "('a, 'b) Agent"
    by (simp add: processMessageQueue_def split: prod.splits)
  have 2: "\<not> processingQueue (snd (processMessage h m s))" if "\<not> processingQueue s"
    using that 1 by (simp add: processMessage_def Let_def split: sum.splits)
  have 3: "processMessage h m2 t = processMessageQueue h (t\<lparr>messageQueue := messageQueue t @ [m2']\<rparr>)"
    if "\<not> processingQueue t" "validateMessage m2 = Inr m2'" for t
    using that by (simp add: processMessage_def Let_def)
  have 4: "processingQueue (snd (processMessage h m s))" if "processingQueue s"
    using that by (simp add: processMessage_def Let_def split: sum.splits)
  show ?thesis using 1 2 3 4 by blast
qed

text \<open>
  Witness for C10: on an idle agent whose handler throws, the call fails with the handler's
  error and the flag is false afterwards; the message was taken from the queue.
\<close>

theorem processingQueue_reset_witness:
  "\<not> processingQueue idleAgent
   \<and> processMessage failingHandler exampleMessage idleAgent =
       (Inl (Error ''Unsupported platform''),
        \<lparr>messageQueue = [], processingQueue = False, world = 1, incoming = []\<rparr>)
   \<and> \<not> processingQueue (snd (processMessage failingHandler exampleMessage idleAgent))"
proof -
  have i: "\<not> processingQueue idleAgent" by (simp add: idleAgent_def)
  have e: "processMessage failingHandler exampleMessage idleAgent =
       (Inl (Error ''Unsupported platform''),
        \<lparr>messageQueue = [], processingQueue = False, world = 1, incoming = []\<rparr>)"
    by (simp add: processMessage_def validate_example processMessageQueue_def idleAgent_def
        drainLoop.simps awaitInternal_def failingHandler_def)
  show ?thesis
    using i e processingQueue_reset[of failingHandler idleAgent exampleMessage] by simp
qed

section \<open>Properties of the rate limiter and the retry executor\<close>

lemma check_fresh:
  "rateLimits s key = None \<or> (\<exists>w. rateLimits s key = Some w \<and> resetTime w < clock s) \<Longrightarrow>
   checkRateLimit key s =
     (True, s\<lparr>rateLimits := (rateLimits s)
        (key \<mapsto> \<lparr>count = 1, resetTime = clock s + timeWindow RATE_LIMIT_CONFIG\<rparr>)\<rparr>)"
  by (auto simp: checkRateLimit_def Let_def)

lemma check_room:
  "rateLimits s key = Some w \<Longrightarrow> clock s \<le> resetTime w \<Longrightarrow>
   count w < maxRequests RATE_LIMIT_CONFIG \<Longrightarrow>
   checkRateLimit key s =
     (True, s\<lparr>rateLimits := (rateLimits s)(key \<mapsto> w\<lparr>count := count w + 1\<rparr>)\<rparr>)"
  by (simp add: checkRateLimit_def Let_def)

lemma check_full:
  "rateLimits s key = Some w \<Longrightarrow> clock s \<le> resetTime w \<Longrightarrow>
   maxRequests RATE_LIMIT_CONFIG \<le> count w \<Longrightarrow> checkRateLimit key s = (False, s)"
  by (simp add: checkRateLimit_def Let_def)

lemma checkRateLimitAt_append:
  "checkRateLimitAt key (xs @ ys) s =
     (case checkRateLimitAt key xs s of
        (bs, s') \<Rightarrow> (case checkRateLimitAt key ys s' of (cs, s'') \<Rightarrow> (bs @ cs, s'')))"
  by (induction xs arbitrary: s) (auto split: prod.splits)

lemma run_in_window:
  "rateLimits s key = Some \<lparr>count = c, resetTime = r\<rparr> \<Longrightarrow> \<forall>t \<in> set ts. t \<le> r \<Longrightarrow>
   c + int (length ts) \<le> maxRequests RATE_LIMIT_CONFIG \<Longrightarrow>
   fst (checkRateLimitAt key ts s) = replicate (length ts) True
   \<and> rateLimits (snd (checkRateLimitAt key ts s)) key
       = Some \<lparr>count = c + int (length ts), resetTime = r\<rparr>"
proof (induction ts arbitrary: s c)
  case Nil
  then show ?case by simp
next
  case (Cons t ts)
  let ?s0 = "s\<lparr>clock := t\<rparr>"
  let ?s1 = "?s0\<lparr>rateLimits := (rateLimits ?s0)(key \<mapsto> \<lparr>count = c + 1, resetTime = r\<rparr>)\<rparr>"
  have chk: "checkRateLimit key ?s0 = (True, ?s1)"
    using Cons.prems check_room[of ?s0 key "\<lparr>count = c, resetTime = r\<rparr>"] by simp
  have "rateLimits ?s1 key = Some \<lparr>count = c + 1, resetTime = r\<rparr>" by simp
  moreover have "\<forall>t \<in> set ts. t \<le> r" using Cons.prems by simp
  moreover have "(c + 1) + int (length ts) \<le> maxRequests RATE_LIMIT_CONFIG"
    using Cons.prems by simp
  ultimately have IH: "fst (checkRateLimitAt key ts ?s1) = replicate (length ts) True
     \<and> rateLimits (snd (checkRateLimitAt key ts ?s1)) key
         = Some \<lparr>count = (c + 1) + int (length ts), resetTime = r\<rparr>"
    by (rule Cons.IH)
  show ?case using chk IH
    by (cases "checkRateLimitAt key ts ?s1") (simp add: add.assoc)
qed


subsection \<open>C5: the fixed window of the rate limiter\<close>

text \<open>
  C5: let the key be fresh at the instant \<open>t0\<close> of a first call (no window stored, or the
  stored window's \<open>resetTime\<close> is before \<open>t0\<close>). That call and the next \<open>maxRequests - 1\<close>
  calls, made at instants not after \<open>t0 + timeWindow\<close>, all return true, and the window then
  holds \<open>count = maxRequests\<close>, \<open>resetTime = t0 + timeWindow\<close>. One more call not after
  \<open>t0 + timeWindow\<close> returns false. A call at an instant \<open>t2\<close> after \<open>t0 + timeWindow\<close>
  returns true and stores the fresh window \<open>count = 1\<close>, \<open>resetTime = t2 + timeWindow\<close>.
\<close>

theorem checkRateLimit_window:
  assumes fresh: "rateLimits s key = None \<or> (\<exists>w. rateLimits s key = Some w \<and> resetTime w < t0)"
    and len: "int (length ts) = maxRequests RATE_LIMIT_CONFIG - 1"
    and inside: "\<forall>t \<in> set ts. t \<le> t0 + timeWindow RATE_LIMIT_CONFIG"
    and over: "t1 \<le> t0 + timeWindow RATE_LIMIT_CONFIG"
    and later: "t0 + timeWindow RATE_LIMIT_CONFIG < t2"
  shows "fst (checkRateLimitAt key (t0 # ts @ [t1, t2]) s)
           = replicate (nat (maxRequests RATE_LIMIT_CONFIG)) True @ [False, True]
    \<and> rateLimits (snd (checkRateLimitAt key (t0 # ts) s)) key
         = Some \<lparr>count = maxRequests RATE_LIMIT_CONFIG,
                  resetTime = t0 + timeWindow RATE_LIMIT_CONFIG\<rparr>
    \<and> rateLimits (snd (checkRateLimitAt key (t0 # ts @ [t1, t2]) s)) key
         = Some \<lparr>count = 1, resetTime = t2 + timeWindow RATE_LIMIT_CONFIG\<rparr>"
proof -
  let ?r = "t0 + timeWindow RATE_LIMIT_CONFIG"
  let ?s0 = "s\<lparr>clock := t0\<rparr>"
  let ?s1 = "?s0\<lparr>rateLimits := (rateLimits ?s0)(key \<mapsto> \<lparr>count = 1, resetTime = ?r\<rparr>)\<rparr>"
  have first: "checkRateLimit key ?s0 = (True, ?s1)"
    using fresh check_fresh[of ?s0 key] by simp
  obtain bs s2 where run: "checkRateLimitAt key ts ?s1 = (bs, s2)"
    by (cases "checkRateLimitAt key ts ?s1")
  have "rateLimits ?s1 key = Some \<lparr>count = 1, resetTime = ?r\<rparr>" by simp
  moreover have "1 + int (length ts) \<le> maxRequests RATE_LIMIT_CONFIG" using len by simp
  ultimately have "fst (checkRateLimitAt key ts ?s1) = replicate (length ts) True
     \<and> rateLimits (snd (checkRateLimitAt key ts ?s1)) key
         = Some \<lparr>count = 1 + int (length ts), resetTime = ?r\<rparr>"
    using inside by (intro run_in_window) auto
  with run len have bs: "bs = replicate (length ts) True"
    and w2: "rateLimits s2 key = Some \<lparr>count = maxRequests RATE_LIMIT_CONFIG, resetTime = ?r\<rparr>"
    by simp_all
  let ?s3 = "s2\<lparr>clock := t1\<rparr>"
  have rej: "checkRateLimit key ?s3 = (False, ?s3)"
    using w2 over check_full[of ?s3 key] by simp
  let ?s4 = "?s3\<lparr>clock := t2\<rparr>"
  have adm: "checkRateLimit key ?s4 =
      (True, ?s4\<lparr>rateLimits := (rateLimits ?s4)
         (key \<mapsto> \<lparr>count = 1, resetTime = t2 + timeWindow RATE_LIMIT_CONFIG\<rparr>)\<rparr>)"
    using w2 later check_fresh[of ?s4 key] by simp
  have n: "nat (maxRequests RATE_LIMIT_CONFIG) = Suc (length ts)" using len by simp
  have A: "checkRateLimitAt key (t0 # ts) s = (True # bs, s2)"
    using first run by simp
  have B: "checkRateLimitAt key [t1, t2] s2 =
      ([False, True], ?s4\<lparr>rateLimits := (rateLimits ?s4)
         (key \<mapsto> \<lparr>count = 1, resetTime = t2 + timeWindow RATE_LIMIT_CONFIG\<rparr>)\<rparr>)"
    using rej adm by simp
  have C: "checkRateLimitAt key (t0 # ts @ [t1, t2]) s =
      ((True # bs) @ [False, True], ?s4\<lparr>rateLimits := (rateLimits ?s4)
         (key \<mapsto> \<lparr>count = 1, resetTime = t2 + timeWindow RATE_LIMIT_CONFIG\<rparr>)\<rparr>)"
    using checkRateLimitAt_append[of key "t0 # ts" "[t1, t2]" s] A B by simp
  show ?thesis using A C bs w2 n by simp
qed

text \<open>
  Witness for C5: on a fresh agent, a call at instant 0, 49 calls at 30000, one at 60000 and
  one at 60001 give fifty admissions, a rejection and an admission into a window that
  resets at 120001.
\<close>

theorem checkRateLimit_window_witness:
  "rateLimits freshState (js ''llm-api'') = None
   \<and> fst (checkRateLimitAt (js ''llm-api'') (0 # replicate 49 30000 @ [60000, 60001]) freshState)
       = replicate 50 True @ [False, True]
   \<and> rateLimits (snd (checkRateLimitAt (js ''llm-api'')
         (0 # replicate 49 30000 @ [60000, 60001]) freshState)) (js ''llm-api'')
       = Some \<lparr>count = 1, resetTime = 120001\<rparr>"
proof -
  have f: "rateLimits freshState (js ''llm-api'') = None
      \<or> (\<exists>w. rateLimits freshState (js ''llm-api'') = Some w \<and> resetTime w < 0)"
    by (simp add: freshState_def)
  have l: "int (length (replicate 49 (30000::int))) = maxRequests RATE_LIMIT_CONFIG - 1"
    by (simp add: RATE_LIMIT_CONFIG_def)
  have i: "\<forall>t \<in> set (replicate 49 (30000::int)). t \<le> 0 + timeWindow RATE_LIMIT_CONFIG"
    by (simp add: RATE_LIMIT_CONFIG_def)
  have o: "(60000::int) \<le> 0 + timeWindow RATE_LIMIT_CONFIG"
    by (simp add: RATE_LIMIT_CONFIG_def)
  have a: "0 + timeWindow RATE_LIMIT_CONFIG < (60001::int)"
    by (simp add: RATE_LIMIT_CONFIG_def)
  show ?thesis
    using checkRateLimit_window[OF f l i o a]
    by (simp add: RATE_LIMIT_CONFIG_def freshState_def)
qed

lemma check_frame:
  "upstream (snd (checkRateLimit key s)) = upstream s
   \<and> trace (snd (checkRateLimit key s)) = trace s
   \<and> clock (snd (checkRateLimit key s)) = clock s"
  by (simp add: checkRateLimit_def Let_def split: option.splits)

lemma check_reject_state: "\<not> fst (checkRateLimit key s) \<Longrightarrow> snd (checkRateLimit key s) = s"
  by (auto simp: checkRateLimit_def Let_def split: option.splits if_splits)

lemma loop_reject:
  assumes "attempt < maxRetries RETRY_CONFIG" and "\<not> fst (checkRateLimit key s)"
  shows "withRetryLoop operation key attempt lastError s =
     withRetryLoop operation key (attempt + 1) lastError
       (sleep (waitTime attempt) (s\<lparr>trace := trace s @ [Rejected]\<rparr>))"
proof -
  have "checkRateLimit key s = (False, s)"
    using assms(2) check_reject_state[OF assms(2)] by (cases "checkRateLimit key s") simp
  then show ?thesis
    using assms(1) by (subst withRetryLoop.simps) simp
qed

lemma loop_admit:
  assumes "attempt < maxRetries RETRY_CONFIG" and "fst (checkRateLimit key s)"
  shows "withRetryLoop operation key attempt lastError s =
     (case invoke operation (snd (checkRateLimit key s)) of
        (Inr v, s2) \<Rightarrow> (Inr v, s2)
      | (Inl error, s2) \<Rightarrow>
          if \<not> shouldRetry error then (Inl error, s2)
          else withRetryLoop operation key (attempt + 1) (Some error)
                 (sleep (waitTime attempt) s2))"
proof -
  obtain s1 where "checkRateLimit key s = (True, s1)"
    using assms(2) by (cases "checkRateLimit key s") simp
  then show ?thesis
    using assms(1) by (subst withRetryLoop.simps) simp
qed

lemma loop_done:
  "\<not> attempt < maxRetries RETRY_CONFIG \<Longrightarrow>
   withRetryLoop operation key attempt lastError s =
     (Inl (case lastError of Some e \<Rightarrow> e
           | None \<Rightarrow> Error ''Operation failed after all retries''), s)"
  by (subst withRetryLoop.simps) simp

lemma loop_attempts:
  "\<exists>evs. trace (snd (withRetryLoop operation key attempt lastError s)) = trace s @ evs
     \<and> length (filter (\<lambda>e. e = Rejected) evs) + length (filter (\<lambda>e. e = Invoked) evs)
         \<le> maxRetries RETRY_CONFIG - attempt"
proof (induction operation key attempt lastError s rule: withRetryLoop.induct)
  case (1 operation key attempt lastError s)
  show ?case
  proof (cases "attempt < maxRetries RETRY_CONFIG")
    case False
    then show ?thesis by (simp add: loop_done)
  next
    case lt: True
    show ?thesis
    proof (cases "fst (checkRateLimit key s)")
      case False
      let ?s' = "sleep (waitTime attempt) (s\<lparr>trace := trace s @ [Rejected]\<rparr>)"
      have c: "checkRateLimit key s = (False, s)"
        using False check_reject_state[OF False] by (cases "checkRateLimit key s") simp
      obtain evs where evs:
        "trace (snd (withRetryLoop operation key (attempt + 1) lastError ?s')) = trace ?s' @ evs"
        "length (filter (\<lambda>e. e = Rejected) evs) + length (filter (\<lambda>e. e = Invoked) evs)
           \<le> maxRetries RETRY_CONFIG - (attempt + 1)"
        using "1.IH"(2)[OF lt c[symmetric] refl] by auto
      have "trace ?s' = trace s @ [Rejected, Slept (waitTime attempt)]"
        by (simp add: sleep_def)
      with evs lt show ?thesis
        unfolding loop_reject[OF lt False]
        by (intro exI[of _ "[Rejected, Slept (waitTime attempt)] @ evs"]) simp
    next
      case True
      let ?s1 = "snd (checkRateLimit key s)"
      have c: "checkRateLimit key s = (True, ?s1)"
        using True by (cases "checkRateLimit key s") simp
      obtain out s2 where inv: "invoke operation ?s1 = (out, s2)"
        by (cases "invoke operation ?s1")
      have t2: "trace s2 = trace s @ [Invoked]"
        using inv check_frame[of key s] by (auto simp: invoke_def split: prod.splits)
      show ?thesis
      proof (cases out)
        case (Inr v)
        with inv t2 lt show ?thesis
          unfolding loop_admit[OF lt True]
          by (intro exI[of _ "[Invoked]"]) simp
      next
        case (Inl e)
        show ?thesis
        proof (cases "shouldRetry e")
          case False
          with Inl inv t2 lt show ?thesis
            unfolding loop_admit[OF lt True]
            by (intro exI[of _ "[Invoked]"]) simp
        next
          case sr: True
          let ?s' = "sleep (waitTime attempt) s2"
          obtain evs where evs:
            "trace (snd (withRetryLoop operation key (attempt + 1) (Some e) ?s')) = trace ?s' @ evs"
            "length (filter (\<lambda>e. e = Rejected) evs) + length (filter (\<lambda>e. e = Invoked) evs)
               \<le> maxRetries RETRY_CONFIG - (attempt + 1)"
            using "1.IH"(1)[OF lt c[symmetric] refl inv[symmetric] Inl] sr by auto
          have "trace ?s' = trace s @ [Invoked, Slept (waitTime attempt)]"
            using t2 by (simp add: sleep_def)
          with evs lt Inl inv sr show ?thesis
            unfolding loop_admit[OF lt True]
            by (intro exI[of _ "[Invoked, Slept (waitTime attempt)] @ evs"]) simp
        qed
      qed
    qed
  qed
qed

lemma waitTime_values:
  "waitTime 0 = 1000" "waitTime 1 = 2000" "waitTime 2 = 4000"
  "waitTime (Suc 0) = 2000" "waitTime (Suc (Suc 0)) = 4000"
  by (simp_all add: waitTime_def RETRY_CONFIG_def)

lemma admitting_first:
  "admitting key s \<Longrightarrow> fst (checkRateLimit key s) \<and> hasRoom 2 key (snd (checkRateLimit key s))"
  by (auto simp: admitting_def hasRoom_def checkRateLimit_def Let_def RATE_LIMIT_CONFIG_def
      RETRY_CONFIG_def split: option.splits)

lemma hasRoom_next:
  "hasRoom (k + 1) key s \<Longrightarrow> 0 \<le> k \<Longrightarrow> k < 50 \<Longrightarrow>
   fst (checkRateLimit key s) \<and> hasRoom k key (snd (checkRateLimit key s))"
  by (auto simp: hasRoom_def checkRateLimit_def Let_def RATE_LIMIT_CONFIG_def
      split: option.splits)

lemma hasRoom_frame:
  "hasRoom k key (sleep ms s) = hasRoom k key s"
  "hasRoom k key (s\<lparr>upstream := u, trace := tr\<rparr>) = hasRoom k key s"
  by (simp_all add: hasRoom_def sleep_def)

lemma loop_admit_throw:
  assumes "attempt < maxRetries RETRY_CONFIG" and "fst (checkRateLimit key s)"
    and "operation (upstream s) = (Inl e, u')"
  shows "withRetryLoop operation key attempt lastError s =
     (if \<not> shouldRetry e
      then (Inl e, (snd (checkRateLimit key s))\<lparr>upstream := u', trace := trace s @ [Invoked]\<rparr>)
      else withRetryLoop operation key (attempt + 1) (Some e)
             (sleep (waitTime attempt)
                ((snd (checkRateLimit key s))\<lparr>upstream := u', trace := trace s @ [Invoked]\<rparr>)))"
  using assms(3) check_frame[of key s]
  by (simp add: loop_admit[OF assms(1,2)] invoke_def)

lemma loop_admit_return:
  assumes "attempt < maxRetries RETRY_CONFIG" and "fst (checkRateLimit key s)"
    and "operation (upstream s) = (Inr v, u')"
  shows "withRetryLoop operation key attempt lastError s =
     (Inr v, (snd (checkRateLimit key s))\<lparr>upstream := u', trace := trace s @ [Invoked]\<rparr>)"
  using assms(3) check_frame[of key s]
  by (simp add: loop_admit[OF assms(1,2)] invoke_def)

lemma admitsAttempts_Suc:
  "admitsAttempts a (Suc n) key s \<longleftrightarrow>
     fst (checkRateLimit key s)
     \<and> admitsAttempts (a + 1) n key (sleep (waitTime a) (snd (checkRateLimit key s)))"
  by (simp split: prod.splits)

lemma check_same_limiter:
  assumes "rateLimits s = rateLimits t" and "clock s = clock t"
  shows "fst (checkRateLimit key s) = fst (checkRateLimit key t)"
    and "rateLimits (snd (checkRateLimit key s)) = rateLimits (snd (checkRateLimit key t))"
    and "clock (snd (checkRateLimit key s)) = clock (snd (checkRateLimit key t))"
  using assms
  by (auto simp: checkRateLimit_def Let_def split: option.splits)

lemma admitsAttempts_same:
  "rateLimits s = rateLimits t \<Longrightarrow> clock s = clock t \<Longrightarrow>
   admitsAttempts a n key s = admitsAttempts a n key t"
proof (induction n arbitrary: a s t)
  case 0
  then show ?case by simp
next
  case (Suc n)
  note c = check_same_limiter[OF Suc.prems, of key]
  have "admitsAttempts (a + 1) n key (sleep (waitTime a) (snd (checkRateLimit key s)))
      = admitsAttempts (a + 1) n key (sleep (waitTime a) (snd (checkRateLimit key t)))"
    using c by (intro Suc.IH) (simp_all add: sleep_def)
  with c(1) show ?case
    unfolding admitsAttempts_Suc by simp
qed

lemma admitsAttempts_step:
  assumes "admitsAttempts a (Suc n) key s"
  shows "fst (checkRateLimit key s)"
    and "admitsAttempts (a + 1) n key
           (sleep (waitTime a) ((snd (checkRateLimit key s))\<lparr>upstream := u, trace := tr\<rparr>))"
proof -
  show "fst (checkRateLimit key s)" using assms unfolding admitsAttempts_Suc by simp
  have 1: "admitsAttempts (a + 1) n key (sleep (waitTime a) (snd (checkRateLimit key s)))"
    using assms unfolding admitsAttempts_Suc by simp
  have "admitsAttempts (a + 1) n key
          (sleep (waitTime a) ((snd (checkRateLimit key s))\<lparr>upstream := u, trace := tr\<rparr>))
      = admitsAttempts (a + 1) n key (sleep (waitTime a) (snd (checkRateLimit key s)))"
    by (intro admitsAttempts_same) (simp_all add: sleep_def)
  with 1
  show "admitsAttempts (a + 1) n key
           (sleep (waitTime a) ((snd (checkRateLimit key s))\<lparr>upstream := u, trace := tr\<rparr>))"
    by simp
qed

lemma hasRoom_admits:
  "hasRoom (int n) key s \<Longrightarrow> n \<le> 50 \<Longrightarrow> admitsAttempts a n key s"
proof (induction n arbitrary: a s)
  case 0
  then show ?case by simp
next
  case (Suc n)
  have "hasRoom (int n + 1) key s" using Suc.prems(1) by (simp add: add.commute)
  from hasRoom_next[OF this] Suc.prems(2)
  have c: "fst (checkRateLimit key s)" "hasRoom (int n) key (snd (checkRateLimit key s))"
    by simp_all
  have "hasRoom (int n) key (sleep (waitTime a) (snd (checkRateLimit key s)))"
    using c(2) by (simp add: hasRoom_frame)
  from Suc.IH[OF this, of "a + 1"] Suc.prems(2) c(1) show ?case
    unfolding admitsAttempts_Suc by simp
qed

lemma admitting_admits:
  assumes "admitting key s"
  shows "admitsAttempts 0 (maxRetries RETRY_CONFIG) key s"
proof -
  note a = admitting_first[OF assms]
  have three: "maxRetries RETRY_CONFIG = Suc 2" by (simp add: RETRY_CONFIG_def)
  have "hasRoom (int 2) key (sleep (waitTime 0) (snd (checkRateLimit key s)))"
    using a by (simp add: hasRoom_frame)
  from hasRoom_admits[OF this, of "0 + 1"] a show ?thesis
    unfolding three admitsAttempts_Suc by simp
qed

lemma take_prefix_iff: "take (length part) s = part \<longleftrightarrow> (\<exists>post. s = part @ post)"
proof
  assume "take (length part) s = part"
  then have "s = part @ drop (length part) s"
    by (metis append_take_drop_id)
  then show "\<exists>post. s = part @ post" ..
next
  assume "\<exists>post. s = part @ post"
  then show "take (length part) s = part" by auto
qed

lemma str_includes_mentions: "str_includes s part \<longleftrightarrow> mentions s part"
proof (induction s)
  case Nil
  show ?case by (auto simp: mentions_def)
next
  case (Cons c cs)
  show ?case
  proof
    assume "str_includes (c # cs) part"
    then consider "take (length part) (c # cs) = part" | "str_includes cs part" by auto
    then show "mentions (c # cs) part"
    proof cases
      case 1
      then obtain post where "c # cs = part @ post"
        using take_prefix_iff[of part "c # cs"] by blast
      then have "c # cs = [] @ part @ post" by simp
      then show ?thesis unfolding mentions_def by blast
    next
      case 2
      then obtain pre post where "cs = pre @ part @ post"
        using Cons by (auto simp: mentions_def)
      then have "c # cs = (c # pre) @ part @ post" by simp
      then show ?thesis unfolding mentions_def by blast
    qed
  next
    assume "mentions (c # cs) part"
    then obtain pre post where eq: "c # cs = pre @ part @ post"
      unfolding mentions_def by blast
    show "str_includes (c # cs) part"
    proof (cases pre)
      case Nil
      with eq have "take (length part) (c # cs) = part"
        using take_prefix_iff[of part "c # cs"] by auto
      then show ?thesis by simp
    next
      case (Cons p pre')
      with eq have "cs = pre' @ part @ post" by simp
      then have "mentions cs part" unfolding mentions_def by blast
      then show ?thesis using Cons.IH by simp
    qed
  qed
qed

lemma shouldRetry_transient: "shouldRetry e \<longleftrightarrow> transientError e"
  by (auto simp: shouldRetry_def transientError_def str_includes_mentions split: option.splits)

lemma rejectsAttempts_Suc:
  "rejectsAttempts a (Suc n) key s \<longleftrightarrow>
     \<not> fst (checkRateLimit key s)
     \<and> rejectsAttempts (Suc a) n key
         (sleep (waitTime a) (s\<lparr>trace := trace s @ [Rejected]\<rparr>))"
proof -
  obtain adm s1 where c: "checkRateLimit key s = (adm, s1)"
    by (cases "checkRateLimit key s")
  show ?thesis
  proof (cases adm)
    case True
    then show ?thesis by (simp add: c)
  next
    case False
    then have "s1 = s" using check_reject_state[of key s] c by simp
    then show ?thesis using False by (simp add: c)
  qed
qed

lemma full_window_rejects:
  assumes "rateLimits s key = Some w" and "maxRequests RATE_LIMIT_CONFIG \<le> count w"
    and "clock s \<le> resetTime w"
  shows "\<not> fst (checkRateLimit key s)"
  using assms by (simp add: checkRateLimit_def Let_def)

subsection \<open>C1: a rate-limit rejection uses up an attempt\<close>

text \<open>
  C1, as stated, fails: a rejection does not retry the same attempt index. With the window
  of \<open>llm-api\<close> full for another minute, all three attempts are rejected, \<open>withRetry\<close>
  sleeps 1000, 2000 and 4000 ms and throws \<open>Operation failed after all retries\<close>; the
  operation, which would have succeeded, is never invoked (the upstream counter stays 0).
\<close>

theorem withRetry_all_rejected_counterexample:
  "withRetry okOp (js ''llm-api'') fullState =
     (Inl (Error ''Operation failed after all retries''),
      fullState\<lparr>clock := 7000,
        trace := [Rejected, Slept 1000, Rejected, Slept 2000, Rejected, Slept 4000]\<rparr>)"
proof -
  let ?k = "js ''llm-api''"
  have rej: "\<not> fst (checkRateLimit ?k (fullState\<lparr>clock := c, trace := tr\<rparr>))"
    if "c \<le> 60000" for c tr
    using that by (simp add: checkRateLimit_def fullState_def RATE_LIMIT_CONFIG_def)
  have full: "fullState = fullState\<lparr>clock := 0, trace := []\<rparr>"
    by (simp add: fullState_def)
  have lt: "0 < maxRetries RETRY_CONFIG" "1 < maxRetries RETRY_CONFIG"
    "2 < maxRetries RETRY_CONFIG" "\<not> 3 < maxRetries RETRY_CONFIG"
    by (simp_all add: RETRY_CONFIG_def)
  have "withRetry okOp ?k fullState
      = withRetryLoop okOp ?k 0 None (fullState\<lparr>clock := 0, trace := []\<rparr>)"
    using full by (simp add: withRetry_def)
  also have "\<dots> = withRetryLoop okOp ?k 1 None
      (fullState\<lparr>clock := 1000, trace := [Rejected, Slept 1000]\<rparr>)"
    using loop_reject[OF lt(1) rej[of 0 "[]"], of okOp None]
    by (simp add: sleep_def waitTime_values numeral_2_eq_2 numeral_3_eq_3)
  also have "\<dots> = withRetryLoop okOp ?k 2 None
      (fullState\<lparr>clock := 3000, trace := [Rejected, Slept 1000, Rejected, Slept 2000]\<rparr>)"
    using loop_reject[OF lt(2) rej[of 1000 "[Rejected, Slept 1000]"], of okOp None]
    by (simp add: sleep_def waitTime_values numeral_2_eq_2 numeral_3_eq_3)
  also have "\<dots> = withRetryLoop okOp ?k 3 None
      (fullState\<lparr>clock := 7000,
         trace := [Rejected, Slept 1000, Rejected, Slept 2000, Rejected, Slept 4000]\<rparr>)"
    using loop_reject[OF lt(3)
        rej[of 3000 "[Rejected, Slept 1000, Rejected, Slept 2000]"], of okOp None]
    by (simp add: sleep_def waitTime_values numeral_2_eq_2 numeral_3_eq_3)
  also have "\<dots> = (Inl (Error ''Operation failed after all retries''),
      fullState\<lparr>clock := 7000,
        trace := [Rejected, Slept 1000, Rejected, Slept 2000, Rejected, Slept 4000]\<rparr>)"
    using lt(4) by (simp add: loop_done)
  finally show ?thesis .
qed

text \<open>
  C1, amended: at every attempt at which \<open>checkRateLimit\<close> rejects the key, the executor
  sleeps for \<open>min(maxDelay, baseDelay * 2^attempt)\<close> and goes on with the next attempt index.
  A rejection uses up one of the \<open>maxRetries\<close> attempts: in every run of \<open>withRetry\<close> the
  rejections and the invocations of the operation together number at most \<open>maxRetries\<close>. If
  every attempt is rejected, the operation is never invoked (the upstream state is untouched
  and the run consists of three rejections, each followed by its sleep) and
  \<open>Operation failed after all retries\<close> is thrown. Every attempt is rejected in particular
  when the window of the key is full and does not expire within the 3000 ms of the first two
  sleeps.
\<close>

theorem withRetry_rejection:
  "(attempt < maxRetries RETRY_CONFIG \<longrightarrow> \<not> fst (checkRateLimit key s) \<longrightarrow>
      withRetryLoop operation key attempt lastError s =
        withRetryLoop operation key (attempt + 1) lastError
          (sleep (min (maxDelay RETRY_CONFIG) (baseDelay RETRY_CONFIG * 2 ^ attempt))
             (s\<lparr>trace := trace s @ [Rejected]\<rparr>)))
   \<and> (\<exists>evs. trace (snd (withRetry operation key s)) = trace s @ evs
          \<and> length (filter (\<lambda>e. e = Rejected) evs) + length (filter (\<lambda>e. e = Invoked) evs)
              \<le> maxRetries RETRY_CONFIG)
   \<and> (rejectsAttempts 0 (maxRetries RETRY_CONFIG) key s \<longrightarrow>
        fst (withRetry operation key s) = Inl (Error ''Operation failed after all retries'')
        \<and> upstream (snd (withRetry operation key s)) = upstream s
        \<and> trace (snd (withRetry operation key s))
            = trace s @ [Rejected, Slept 1000, Rejected, Slept 2000, Rejected, Slept 4000])
   \<and> ((\<exists>w. rateLimits s key = Some w \<and> maxRequests RATE_LIMIT_CONFIG \<le> count w
            \<and> clock s + 3000 \<le> resetTime w)
        \<longrightarrow> rejectsAttempts 0 (maxRetries RETRY_CONFIG) key s)"
proof (intro conjI)
  show "attempt < maxRetries RETRY_CONFIG \<longrightarrow> \<not> fst (checkRateLimit key s) \<longrightarrow>
      withRetryLoop operation key attempt lastError s =
        withRetryLoop operation key (attempt + 1) lastError
          (sleep (min (maxDelay RETRY_CONFIG) (baseDelay RETRY_CONFIG * 2 ^ attempt))
             (s\<lparr>trace := trace s @ [Rejected]\<rparr>))"
    using loop_reject[of attempt key s operation lastError] by (simp add: waitTime_def)
  show "\<exists>evs. trace (snd (withRetry operation key s)) = trace s @ evs
          \<and> length (filter (\<lambda>e. e = Rejected) evs) + length (filter (\<lambda>e. e = Invoked) evs)
              \<le> maxRetries RETRY_CONFIG"
    using loop_attempts[of operation key 0 None s] by (simp add: withRetry_def)
  have three: "maxRetries RETRY_CONFIG = Suc (Suc (Suc 0))" by (simp add: RETRY_CONFIG_def)
  have lt: "0 < maxRetries RETRY_CONFIG" "Suc 0 < maxRetries RETRY_CONFIG"
    "Suc (Suc 0) < maxRetries RETRY_CONFIG" "\<not> Suc (Suc (Suc 0)) < maxRetries RETRY_CONFIG"
    by (simp_all add: RETRY_CONFIG_def)
  let ?s1 = "sleep (waitTime 0) (s\<lparr>trace := trace s @ [Rejected]\<rparr>)"
  let ?s2 = "sleep (waitTime (Suc 0)) (?s1\<lparr>trace := trace ?s1 @ [Rejected]\<rparr>)"
  let ?s3 = "sleep (waitTime (Suc (Suc 0))) (?s2\<lparr>trace := trace ?s2 @ [Rejected]\<rparr>)"
  show "rejectsAttempts 0 (maxRetries RETRY_CONFIG) key s \<longrightarrow>
        fst (withRetry operation key s) = Inl (Error ''Operation failed after all retries'')
        \<and> upstream (snd (withRetry operation key s)) = upstream s
        \<and> trace (snd (withRetry operation key s))
            = trace s @ [Rejected, Slept 1000, Rejected, Slept 2000, Rejected, Slept 4000]"
  proof
    assume all: "rejectsAttempts 0 (maxRetries RETRY_CONFIG) key s"
    have r0: "\<not> fst (checkRateLimit key s)" and a1: "rejectsAttempts (Suc 0) (Suc (Suc 0)) key ?s1"
      using all unfolding three rejectsAttempts_Suc[of 0] by simp_all
    have r1: "\<not> fst (checkRateLimit key ?s1)" and a2: "rejectsAttempts (Suc (Suc 0)) (Suc 0) key ?s2"
      using a1 unfolding rejectsAttempts_Suc[of "Suc 0"] by simp_all
    have r2: "\<not> fst (checkRateLimit key ?s2)"
      using a2 unfolding rejectsAttempts_Suc[of "Suc (Suc 0)"] by simp
    have "withRetry operation key s = withRetryLoop operation key (Suc 0) None ?s1"
      using loop_reject[OF lt(1) r0, of operation None] by (simp add: withRetry_def)
    also have "\<dots> = withRetryLoop operation key (Suc (Suc 0)) None ?s2"
      using loop_reject[OF lt(2) r1, of operation None] by simp
    also have "\<dots> = withRetryLoop operation key (Suc (Suc (Suc 0))) None ?s3"
      using loop_reject[OF lt(3) r2, of operation None] by simp
    also have "\<dots> = (Inl (Error ''Operation failed after all retries''), ?s3)"
      using lt(4) by (simp add: loop_done)
    finally have r: "withRetry operation key s
        = (Inl (Error ''Operation failed after all retries''), ?s3)" .
    show "fst (withRetry operation key s) = Inl (Error ''Operation failed after all retries'')
        \<and> upstream (snd (withRetry operation key s)) = upstream s
        \<and> trace (snd (withRetry operation key s))
            = trace s @ [Rejected, Slept 1000, Rejected, Slept 2000, Rejected, Slept 4000]"
      unfolding r by (simp add: sleep_def waitTime_values)
  qed
  show "(\<exists>w. rateLimits s key = Some w \<and> maxRequests RATE_LIMIT_CONFIG \<le> count w
            \<and> clock s + 3000 \<le> resetTime w)
        \<longrightarrow> rejectsAttempts 0 (maxRetries RETRY_CONFIG) key s"
  proof
    assume "\<exists>w. rateLimits s key = Some w \<and> maxRequests RATE_LIMIT_CONFIG \<le> count w
            \<and> clock s + 3000 \<le> resetTime w"
    then obtain w where w: "rateLimits s key = Some w" "maxRequests RATE_LIMIT_CONFIG \<le> count w"
      "clock s + 3000 \<le> resetTime w" by blast
    have r0: "\<not> fst (checkRateLimit key s)"
      using w by (intro full_window_rejects[of s key w]) simp_all
    have r1: "\<not> fst (checkRateLimit key ?s1)"
      using w by (intro full_window_rejects[of ?s1 key w]) (simp_all add: sleep_def waitTime_values)
    have r2: "\<not> fst (checkRateLimit key ?s2)"
      using w by (intro full_window_rejects[of ?s2 key w]) (simp_all add: sleep_def waitTime_values)
    show "rejectsAttempts 0 (maxRetries RETRY_CONFIG) key s"
      unfolding three rejectsAttempts_Suc[of 0] rejectsAttempts_Suc[of "Suc 0"]
        rejectsAttempts_Suc[of "Suc (Suc 0)"]
      using r0 r1 r2 by simp
  qed
qed

text \<open>
  Witness for C1: in the full window the first attempt is rejected, and the loop goes on at
  attempt 1 after a sleep of 1000 ms; the window stays full for all three attempts, so the
  operation is not invoked and the fallback error is thrown.
\<close>

theorem withRetry_rejection_witness:
  "0 < maxRetries RETRY_CONFIG \<and> fst (checkRateLimit (js ''llm-api'') fullState) = False
   \<and> withRetryLoop okOp (js ''llm-api'') 0 None fullState =
       withRetryLoop okOp (js ''llm-api'') 1 None
         (fullState\<lparr>clock := 1000, trace := [Rejected, Slept 1000]\<rparr>)
   \<and> rejectsAttempts 0 (maxRetries RETRY_CONFIG) (js ''llm-api'') fullState
   \<and> fst (withRetry okOp (js ''llm-api'') fullState)
       = Inl (Error ''Operation failed after all retries'')
   \<and> upstream (snd (withRetry okOp (js ''llm-api'') fullState)) = 0"
proof -
  have lt: "0 < maxRetries RETRY_CONFIG" by (simp add: RETRY_CONFIG_def)
  have rej: "\<not> fst (checkRateLimit (js ''llm-api'') fullState)"
    by (simp add: checkRateLimit_def fullState_def RATE_LIMIT_CONFIG_def)
  have w: "min (maxDelay RETRY_CONFIG) (baseDelay RETRY_CONFIG * 2 ^ 0) = 1000"
    by (simp add: RETRY_CONFIG_def)
  have st: "sleep 1000 (fullState\<lparr>trace := trace fullState @ [Rejected]\<rparr>)
      = fullState\<lparr>clock := 1000, trace := [Rejected, Slept 1000]\<rparr>"
    by (simp add: sleep_def fullState_def)
  have f: "\<exists>w. rateLimits fullState (js ''llm-api'') = Some w
      \<and> maxRequests RATE_LIMIT_CONFIG \<le> count w \<and> clock fullState + 3000 \<le> resetTime w"
    by (simp add: fullState_def RATE_LIMIT_CONFIG_def)
  have u: "upstream fullState = 0" by (simp add: fullState_def)
  show ?thesis
    using withRetry_rejection[of 0 "js ''llm-api''" fullState okOp None] lt rej w st f u
    by simp
qed

subsection \<open>C3: permanent and transient errors\<close>

text \<open>
  C3: if the rate limiter admits the first attempt and the first invocation of the operation
  throws an error that is not a \<open>NetworkError\<close>, does not mention \<open>rate limit\<close> and has no
  HTTP status 429, 502 or 503, then \<open>withRetry\<close> throws that error and has invoked the
  operation exactly once, without sleeping. If the rate limiter admits all \<open>maxRetries\<close>
  attempts and the operation throws such an error (a \<open>NetworkError\<close>, a message mentioning
  \<open>rate limit\<close>, or a status 429, 502 or 503) on its first \<open>maxRetries - 1\<close>
  invocations and succeeds on the next, \<open>withRetry\<close> returns that success; it has invoked
  the operation three times, which is \<open>maxRetries\<close>, with sleeps of 1000 and 2000 ms in
  between. The rate limiter admits all attempts in particular when the key has no window, an
  expired window, or a window with room for \<open>maxRetries\<close> more requests.
\<close>

theorem withRetry_errors:
  "(fst (checkRateLimit key s) \<longrightarrow>
      operation (upstream s) = (Inl e, u') \<longrightarrow> name e \<noteq> js ''NetworkError'' \<longrightarrow>
      \<not> mentions (message e) (js ''rate limit'') \<longrightarrow>
      (\<forall>r. response e = Some r \<longrightarrow> status r \<notin> {429, 502, 503}) \<longrightarrow>
      fst (withRetry operation key s) = Inl e
      \<and> upstream (snd (withRetry operation key s)) = u'
      \<and> trace (snd (withRetry operation key s)) = trace s @ [Invoked])
   \<and> (admitsAttempts 0 (maxRetries RETRY_CONFIG) key s \<longrightarrow>
      failsThenSucceeds (maxRetries RETRY_CONFIG - 1) operation (upstream s) = Some (v, u'') \<longrightarrow>
      fst (withRetry operation key s) = Inr v
      \<and> upstream (snd (withRetry operation key s)) = u''
      \<and> trace (snd (withRetry operation key s))
          = trace s @ [Invoked, Slept 1000, Invoked, Slept 2000, Invoked]
      \<and> length (filter (\<lambda>e. e = Invoked) [Invoked, Slept 1000, Invoked, Slept 2000, Invoked])
          \<le> maxRetries RETRY_CONFIG)
   \<and> (admitting key s \<longrightarrow> admitsAttempts 0 (maxRetries RETRY_CONFIG) key s)"
proof (intro conjI impI)
  have lt: "0 < maxRetries RETRY_CONFIG" "1 < maxRetries RETRY_CONFIG"
    "2 < maxRetries RETRY_CONFIG"
    by (simp_all add: RETRY_CONFIG_def)
  {
    assume adm: "fst (checkRateLimit key s)"
      and op: "operation (upstream s) = (Inl e, u')"
      and "name e \<noteq> js ''NetworkError''" "\<not> mentions (message e) (js ''rate limit'')"
      and "\<forall>r. response e = Some r \<longrightarrow> status r \<notin> {429, 502, 503}"
    then have perm: "\<not> shouldRetry e"
      by (auto simp: shouldRetry_transient transientError_def)
    have r: "withRetry operation key s =
        (Inl e, (snd (checkRateLimit key s))\<lparr>upstream := u', trace := trace s @ [Invoked]\<rparr>)"
      using loop_admit_throw[of 0 key s operation e u' None] lt(1) adm op perm
      by (simp add: withRetry_def)
    show "fst (withRetry operation key s) = Inl e" by (simp add: r)
    show "upstream (snd (withRetry operation key s)) = u'" by (simp add: r)
    show "trace (snd (withRetry operation key s)) = trace s @ [Invoked]" by (simp add: r)
  }
  {
    assume all: "admitsAttempts 0 (maxRetries RETRY_CONFIG) key s"
      and fs: "failsThenSucceeds (maxRetries RETRY_CONFIG - 1) operation (upstream s) = Some (v, u'')"
    have two: "maxRetries RETRY_CONFIG - 1 = Suc (Suc 0)" by (simp add: RETRY_CONFIG_def)
    have three: "maxRetries RETRY_CONFIG = Suc (Suc (Suc 0))" by (simp add: RETRY_CONFIG_def)
    obtain e1 u1 where o1: "operation (upstream s) = (Inl e1, u1)" "shouldRetry e1"
      and fs1: "failsThenSucceeds (Suc 0) operation u1 = Some (v, u'')"
      using fs unfolding two
      by (auto simp: shouldRetry_transient split: prod.splits sum.splits if_splits)
    obtain e2 u2 where o2: "operation u1 = (Inl e2, u2)" "shouldRetry e2"
      and fs2: "failsThenSucceeds 0 operation u2 = Some (v, u'')"
      using fs1 by (auto simp: shouldRetry_transient split: prod.splits sum.splits if_splits)
    have o3: "operation u2 = (Inr v, u'')"
      using fs2 by (auto split: prod.splits sum.splits)
    let ?c0 = "snd (checkRateLimit key s)"
    let ?s1 = "sleep (waitTime 0) (?c0\<lparr>upstream := u1, trace := trace s @ [Invoked]\<rparr>)"
    have adm0: "fst (checkRateLimit key s)"
      and all1: "admitsAttempts 1 (Suc (Suc 0)) key ?s1"
      using admitsAttempts_step(1)[of 0 "Suc (Suc 0)" key s]
        admitsAttempts_step(2)[where a = 0 and n = "Suc (Suc 0)" and key = key and s = s
          and u = u1 and tr = "trace s @ [Invoked]"] all
      unfolding three by simp_all
    have step0: "withRetryLoop operation key 0 None s = withRetryLoop operation key 1 (Some e1) ?s1"
      using loop_admit_throw[of 0 key s operation e1 u1 None] lt(1) adm0 o1 by simp
    have up1: "upstream ?s1 = u1" and tr1: "trace ?s1 = trace s @ [Invoked, Slept 1000]"
      by (simp_all add: sleep_def waitTime_values)
    let ?c1 = "snd (checkRateLimit key ?s1)"
    let ?s2 = "sleep (waitTime 1) (?c1\<lparr>upstream := u2, trace := trace ?s1 @ [Invoked]\<rparr>)"
    have adm1: "fst (checkRateLimit key ?s1)"
      and all2: "admitsAttempts (1 + 1) (Suc 0) key ?s2"
      using admitsAttempts_step(1)[of 1 "Suc 0" key ?s1]
        admitsAttempts_step(2)[where a = 1 and n = "Suc 0" and key = key and s = ?s1
          and u = u2 and tr = "trace ?s1 @ [Invoked]"] all1
      by simp_all
    have step1: "withRetryLoop operation key 1 (Some e1) ?s1
        = withRetryLoop operation key (1 + 1) (Some e2) ?s2"
      using loop_admit_throw[of 1 key ?s1 operation e2 u2 "Some e1"] lt(2) adm1 o2 up1 by simp
    have up2: "upstream ?s2 = u2"
      and tr2: "trace ?s2 = trace s @ [Invoked, Slept 1000, Invoked, Slept 2000]"
      using tr1 by (simp_all add: sleep_def waitTime_values)
    have adm2: "fst (checkRateLimit key ?s2)"
      using all2 unfolding admitsAttempts_Suc by simp
    have step2: "withRetryLoop operation key (1 + 1) (Some e2) ?s2
        = (Inr v, (snd (checkRateLimit key ?s2))\<lparr>upstream := u'', trace := trace ?s2 @ [Invoked]\<rparr>)"
      using loop_admit_return[of "1 + 1" key ?s2 operation v u'' "Some e2"] lt(3) adm2 o3 up2
      by simp
    have r: "withRetry operation key s
        = (Inr v, (snd (checkRateLimit key ?s2))\<lparr>upstream := u'', trace := trace ?s2 @ [Invoked]\<rparr>)"
      unfolding withRetry_def step0 step1 step2 ..
    show "fst (withRetry operation key s) = Inr v" by (simp add: r)
    show "upstream (snd (withRetry operation key s)) = u''" by (simp add: r)
    show "trace (snd (withRetry operation key s))
        = trace s @ [Invoked, Slept 1000, Invoked, Slept 2000, Invoked]"
      unfolding r using tr2 by simp
    show "length (filter (\<lambda>e. e = Invoked) [Invoked, Slept 1000, Invoked, Slept 2000, Invoked])
        \<le> maxRetries RETRY_CONFIG"
      by (simp add: RETRY_CONFIG_def)
  }
  {
    assume "admitting key s"
    then show "admitsAttempts 0 (maxRetries RETRY_CONFIG) key s" by (rule admitting_admits)
  }
qed

text \<open>
  Witness for C3: on a fresh agent, an operation that always throws a plain \<open>Bad request\<close>
  error, and one that always throws an error with status 500, are invoked once and their
  error is thrown. An operation that throws a network error twice, one that throws a
  \<open>rate limit\<close> message and then a status 429, and one that throws a status 502 and then a
  status 503, all succeeding on the third invocation, are invoked three times and their
  value is returned.
\<close>

theorem withRetry_errors_witness:
  "admitsAttempts 0 (maxRetries RETRY_CONFIG) (js ''llm-api'') freshState
   \<and> fst (checkRateLimit (js ''llm-api'') freshState)
   \<and> transientError (Error ''Bad request'') = False
   \<and> fst (withRetry permanentOp (js ''llm-api'') freshState) = Inl (Error ''Bad request'')
   \<and> trace (snd (withRetry permanentOp (js ''llm-api'') freshState)) = [Invoked]
   \<and> transientError (httpError 500) = False
   \<and> fst (withRetry serverErrorOp (js ''llm-api'') freshState) = Inl (httpError 500)
   \<and> trace (snd (withRetry serverErrorOp (js ''llm-api'') freshState)) = [Invoked]
   \<and> failsThenSucceeds (maxRetries RETRY_CONFIG - 1) flakyOp (upstream freshState)
       = Some (js ''ok'', 3)
   \<and> fst (withRetry flakyOp (js ''llm-api'') freshState) = Inr (js ''ok'')
   \<and> trace (snd (withRetry flakyOp (js ''llm-api'') freshState))
       = [Invoked, Slept 1000, Invoked, Slept 2000, Invoked]
   \<and> failsThenSucceeds (maxRetries RETRY_CONFIG - 1) throttledOp (upstream freshState)
       = Some (js ''ok'', 3)
   \<and> fst (withRetry throttledOp (js ''llm-api'') freshState) = Inr (js ''ok'')
   \<and> upstream (snd (withRetry throttledOp (js ''llm-api'') freshState)) = 3
   \<and> failsThenSucceeds (maxRetries RETRY_CONFIG - 1) gatewayOp (upstream freshState)
       = Some (js ''ok'', 3)
   \<and> fst (withRetry gatewayOp (js ''llm-api'') freshState) = Inr (js ''ok'')
   \<and> upstream (snd (withRetry gatewayOp (js ''llm-api'') freshState)) = 3"
proof -
  have a: "admitting (js ''llm-api'') freshState"
    by (simp add: admitting_def freshState_def)
  have c: "fst (checkRateLimit (js ''llm-api'') freshState)"
    by (simp add: checkRateLimit_def freshState_def)
  have u0: "upstream freshState = 0" and t0: "trace freshState = []"
    by (simp_all add: freshState_def)
  have p: "permanentOp 0 = (Inl (Error ''Bad request''), 1)"
    "serverErrorOp 0 = (Inl (httpError 500), 1)"
    by (simp_all add: permanentOp_def serverErrorOp_def)
  have bad: "transientError (Error ''Bad request'') = False"
    unfolding shouldRetry_transient[symmetric]
    by (simp add: shouldRetry_def Error_def js_def)
  have srv: "transientError (httpError 500) = False"
    unfolding shouldRetry_transient[symmetric]
    by (simp add: shouldRetry_def httpError_def js_def)
  have nb: "name (Error ''Bad request'') \<noteq> js ''NetworkError''"
    "\<not> mentions (message (Error ''Bad request'')) (js ''rate limit'')"
    "\<forall>r. response (Error ''Bad request'') = Some r \<longrightarrow> status r \<notin> {429, 502, 503}"
    using bad by (auto simp: transientError_def)
  have ns: "name (httpError 500) \<noteq> js ''NetworkError''"
    "\<not> mentions (message (httpError 500)) (js ''rate limit'')"
    "\<forall>r. response (httpError 500) = Some r \<longrightarrow> status r \<notin> {429, 502, 503}"
    using srv by (auto simp: transientError_def)
  have tr: "transientError networkError" "transientError rateLimitError"
    "transientError (httpError 429)" "transientError (httpError 502)"
    "transientError (httpError 503)"
    unfolding shouldRetry_transient[symmetric]
    by (simp_all add: shouldRetry_def networkError_def rateLimitError_def httpError_def js_def)
  have two: "maxRetries RETRY_CONFIG - 1 = Suc (Suc 0)" by (simp add: RETRY_CONFIG_def)
  have f: "failsThenSucceeds (maxRetries RETRY_CONFIG - 1) flakyOp (upstream freshState)
      = Some (js ''ok'', 3)"
    "failsThenSucceeds (maxRetries RETRY_CONFIG - 1) throttledOp (upstream freshState)
      = Some (js ''ok'', 3)"
    "failsThenSucceeds (maxRetries RETRY_CONFIG - 1) gatewayOp (upstream freshState)
      = Some (js ''ok'', 3)"
    unfolding two u0 using tr
    by (simp_all add: flakyOp_def throttledOp_def gatewayOp_def)
  note all = withRetry_errors[of "js ''llm-api''" freshState, THEN conjunct2, THEN conjunct2,
      THEN mp, OF a]
  note perm = withRetry_errors[of "js ''llm-api''" freshState, THEN conjunct1, rule_format]
  note trans = withRetry_errors[of "js ''llm-api''" freshState, THEN conjunct2, THEN conjunct1,
      rule_format, OF all]
  have 1: "fst (withRetry permanentOp (js ''llm-api'') freshState) = Inl (Error ''Bad request'')
      \<and> upstream (snd (withRetry permanentOp (js ''llm-api'') freshState)) = 1
      \<and> trace (snd (withRetry permanentOp (js ''llm-api'') freshState)) = trace freshState @ [Invoked]"
    by (rule perm[of permanentOp "Error ''Bad request'' " 1]) (use c p nb u0 in simp_all)
  have 2: "fst (withRetry serverErrorOp (js ''llm-api'') freshState) = Inl (httpError 500)
      \<and> upstream (snd (withRetry serverErrorOp (js ''llm-api'') freshState)) = 1
      \<and> trace (snd (withRetry serverErrorOp (js ''llm-api'') freshState)) = trace freshState @ [Invoked]"
    by (rule perm[of serverErrorOp "httpError 500" 1]) (use c p ns u0 in simp_all)
  note 3 = trans[OF f(1)] and 4 = trans[OF f(2)] and 5 = trans[OF f(3)]
  show ?thesis
    using all c bad srv 1 2 3 4 5 f t0 by simp
qed


section \<open>Properties of action dispatch\<close>

lemma dispatch_skip:
  "\<forall>b \<in> set pre. \<not> matches t b \<Longrightarrow>
   dispatchActions publish t au (pre @ rest) ctx w = dispatchActions publish t au rest ctx w"
  by (induction pre) simp_all

lemma dispatch_executed_prefix:
  "\<exists>k. fst (snd (dispatchActions publish t au actions ctx w))
        = map actionName (take k (filter (matches t) actions))"
proof (induction actions arbitrary: ctx w)
  case Nil
  then show ?case by simp
next
  case (Cons a actions)
  show ?case
  proof (cases "matches t a")
    case False
    then show ?thesis using Cons.IH[of ctx w] by simp
  next
    case m: True
    obtain out w1 where ex: "execute a t au w = (out, w1)" by (cases "execute a t au w")
    show ?thesis
    proof (cases out)
      case (Inl e)
      with m ex show ?thesis by (intro exI[of _ 1]) simp
    next
      case (Inr r)
      show ?thesis
      proof (cases "shouldSendMessage r")
        case True
        with m ex Inr show ?thesis
          by (intro exI[of _ 1]) (simp split: prod.splits option.splits)
      next
        case False
        let ?ctx = "case context r of None \<Rightarrow> ctx
                    | Some c \<Rightarrow> if c \<noteq> [] then ctx @ [0x0A] @ c else ctx"
        obtain d executed w2 where
          rest: "dispatchActions publish t au actions ?ctx w1 = (d, executed, w2)"
          by (cases "dispatchActions publish t au actions ?ctx w1")
        obtain k where "executed = map actionName (take k (filter (matches t) actions))"
          using Cons.IH[of ?ctx w1] rest by auto
        with m ex Inr False rest show ?thesis
          by (intro exI[of _ "Suc k"]) simp
      qed
    qed
  qed
qed

subsection \<open>C2: which matching actions are executed\<close>

text \<open>
  C2, as stated, fails: the text \<open>ping\<close> is matched by two registered actions; the first one
  returns a result without \<open>shouldSendMessage\<close> (it only supplies context), and the loop goes
  on and executes the second one as well.
\<close>

theorem dispatch_two_matches_counterexample:
  "matches (js ''ping'') lookupAction \<and> matches (js ''ping'') pingAction
   \<and> dispatchActions publishOk (js ''ping'') () [lookupAction, pingAction] [] [] =
       (Replied (js ''pong''), [js ''lookup'', js ''ping''],
        [js ''lookup'', js ''ping'', js ''pong''])"
  by (simp add: matches_def lookupAction_def pingAction_def publishOk_def) (simp add: js_def)

text \<open>
  C2, amended: the actions whose \<open>execute\<close> is invoked are, in registration order, the first
  so many of the actions matching the text. When the first matching action returns a result
  with \<open>shouldSendMessage\<close> set and the cast is published, its text is returned and it is the
  only action executed; when it throws, the error is thrown and it is the only action executed.
  When it returns a result without \<open>shouldSendMessage\<close>, its context, if any, is added on a new
  line and the loop goes on with the later actions, whose matches are executed too.
\<close>

theorem dispatch_order:
  "(\<exists>k. fst (snd (dispatchActions publish t au actions ctx w))
          = map actionName (take k (filter (matches t) actions)))
   \<and> (actions = pre @ a # post \<longrightarrow> (\<forall>b \<in> set pre. \<not> matches t b) \<longrightarrow> matches t a \<longrightarrow>
        execute a t au w = (Inr r, w1) \<longrightarrow> shouldSendMessage r \<longrightarrow>
        publish (resultText r) w1 = (None, w2) \<longrightarrow>
        dispatchActions publish t au actions ctx w = (Replied (resultText r), [actionName a], w2))
   \<and> (actions = pre @ a # post \<longrightarrow> (\<forall>b \<in> set pre. \<not> matches t b) \<longrightarrow> matches t a \<longrightarrow>
        execute a t au w = (Inl e, w1) \<longrightarrow>
        dispatchActions publish t au actions ctx w = (Threw e, [actionName a], w1))
   \<and> (actions = pre @ a # post \<longrightarrow> (\<forall>b \<in> set pre. \<not> matches t b) \<longrightarrow> matches t a \<longrightarrow>
        execute a t au w = (Inr r, w1) \<longrightarrow> \<not> shouldSendMessage r \<longrightarrow>
        dispatchActions publish t au actions ctx w =
          (case dispatchActions publish t au post
                  (case context r of
                     None \<Rightarrow> ctx
                   | Some c \<Rightarrow> if c \<noteq> [] then ctx @ [0x0A] @ c else ctx) w1 of
             (d, executed, w3) \<Rightarrow> (d, actionName a # executed, w3)))"
  using dispatch_executed_prefix[of publish t au actions ctx w]
  by (auto simp: dispatch_skip)

text \<open>
  Witness for C2: of three registered actions the first does not match \<open>ping\<close>, the second
  matches, answers \<open>pong\<close> and asks to send it, and the third matches as well; only the second
  one is executed.
\<close>

theorem dispatch_order_witness:
  "\<not> matches (js ''ping'') baseAction \<and> matches (js ''ping'') pingAction
   \<and> matches (js ''ping'') lookupAction
   \<and> dispatchActions publishOk (js ''ping'') () [baseAction, pingAction, lookupAction] [] [] =
       (Replied (js ''pong''), [js ''ping''], [js ''ping'', js ''pong''])"
proof -
  have b: "\<forall>b \<in> set [baseAction]. \<not> matches (js ''ping'') b"
    by (simp add: matches_def baseAction_def)
  have m: "matches (js ''ping'') pingAction" "matches (js ''ping'') lookupAction"
    by (simp_all add: matches_def pingAction_def lookupAction_def js_def)
  have e: "execute pingAction (js ''ping'') () [] =
      (Inr \<lparr>resultText = js ''pong'', shouldSendMessage = True, context = None\<rparr>, [js ''ping''])"
    by (simp add: pingAction_def)
  have p: "publishOk (js ''pong'') [js ''ping''] = (None, [js ''ping'', js ''pong''])"
    by (simp add: publishOk_def)
  show ?thesis
    using dispatch_order[of publishOk "js ''ping''" "()" "[baseAction, pingAction, lookupAction]"
        "[]" "[]" "[baseAction]" pingAction "[lookupAction]"
        "\<lparr>resultText = js ''pong'', shouldSendMessage = True, context = None\<rparr>"
        "[js ''ping'']" "[js ''ping'', js ''pong'']"] b m e p
    by (simp add: pingAction_def)
qed


section \<open>Properties of the memory store\<close>

lemma getConversations_total: "\<exists>xs. getConversations J mem u = Inr xs"
  by (auto simp: getConversations_def Let_def split: option.splits sum.splits)

lemma getLongTerm_total: "\<exists>xs. getLongTerm J mem u = Inr xs"
  by (auto simp: getLongTerm_def Let_def split: option.splits sum.splits)

lemma store_total:
  "fst (storeConversation J mem u m) = Inr ()" "fst (storeLongTerm J mem u r) = Inr ()"
  by (auto simp: storeConversation_def storeLongTerm_def Let_def split: option.splits sum.splits)

lemma getConversations_empty:
  assumes "\<not> isAvailable mem
      \<or> (\<exists>k. kv mem = Some k
            \<and> (getFails k \<or> entries k (MEMORY_TYPES_CONVERSATION @ js '':'' @ u) = None))"
  shows "getConversations J mem u = Inr []"
  using assms by (auto simp: getConversations_def Let_def kv_get_def split: option.splits sum.splits)

lemma getLongTerm_empty:
  assumes "\<not> isAvailable mem
      \<or> (\<exists>k. kv mem = Some k
            \<and> (getFails k \<or> entries k (MEMORY_TYPES_LONG_TERM @ js '':'' @ u) = None))"
  shows "getLongTerm J mem u = Inr []"
  using assms by (auto simp: getLongTerm_def Let_def kv_get_def split: option.splits sum.splits)

lemma store_noop:
  assumes "\<not> isAvailable mem \<or> (\<exists>k. kv mem = Some k \<and> putFails k)"
  shows "storeConversation J mem u m = (Inr (), mem)" "storeLongTerm J mem u r = (Inr (), mem)"
  using assms
  by (auto simp: storeConversation_def storeLongTerm_def Let_def kv_put_def
      split: option.splits sum.splits)

lemma newMemory_available:
  "isAvailable (newMemory env) \<longleftrightarrow> (\<exists>e k. env = Some e \<and> AGENT_KV e = Some k)"
  by (cases env) (auto simp: newMemory_def Let_def)

subsection \<open>C8: storage failures never reach the caller\<close>

text \<open>
  C8: \<open>getConversations\<close>, \<open>getLongTerm\<close>, \<open>storeConversation\<close> and \<open>storeLongTerm\<close> never
  throw. If the store is unavailable, or the key is absent, or the read throws, the two reads
  return the empty list. If the store is unavailable or the write throws, the two stores
  leave the memory as it was. The store is available exactly when the environment given to
  the constructor held the binding.
\<close>

theorem memory_degrades:
  "(\<exists>xs. getConversations J mem u = Inr xs) \<and> (\<exists>xs. getLongTerm J mem u = Inr xs)
   \<and> fst (storeConversation J mem u m) = Inr () \<and> fst (storeLongTerm J mem u r) = Inr ()
   \<and> (\<not> isAvailable mem
        \<or> (\<exists>k. kv mem = Some k
              \<and> (getFails k \<or> entries k (MEMORY_TYPES_CONVERSATION @ js '':'' @ u) = None))
       \<longrightarrow> getConversations J mem u = Inr [])
   \<and> (\<not> isAvailable mem
        \<or> (\<exists>k. kv mem = Some k
              \<and> (getFails k \<or> entries k (MEMORY_TYPES_LONG_TERM @ js '':'' @ u) = None))
       \<longrightarrow> getLongTerm J mem u = Inr [])
   \<and> (\<not> isAvailable mem \<or> (\<exists>k. kv mem = Some k \<and> putFails k)
       \<longrightarrow> storeConversation J mem u m = (Inr (), mem)
           \<and> storeLongTerm J mem u r = (Inr (), mem))
   \<and> (isAvailable (newMemory env) \<longleftrightarrow> (\<exists>e k. env = Some e \<and> AGENT_KV e = Some k))"
  using getConversations_total[of J mem u] getLongTerm_total[of J mem u]
    store_total[of J mem u] getConversations_empty[of mem u J] getLongTerm_empty[of mem u J]
    store_noop[of mem J u] newMemory_available[of env]
  by blast

text \<open>
  Witness for C8: without the binding the memory is unavailable and reads are empty; with a
  store whose reads and writes throw, the read is empty and the write changes nothing.
\<close>

theorem memory_degrades_witness:
  "isAvailable (newMemory (Some \<lparr>AGENT_KV = None\<rparr>)) = False
   \<and> getConversations bracketJSON (newMemory (Some \<lparr>AGENT_KV = None\<rparr>)) (js ''42'') = Inr []
   \<and> isAvailable brokenMemory
   \<and> getConversations bracketJSON brokenMemory (js ''42'') = Inr []
   \<and> getLongTerm bracketJSON brokenMemory (js ''42'') = Inr []
   \<and> storeConversation bracketJSON brokenMemory (js ''42'') 0x61 = (Inr (), brokenMemory)
   \<and> storeLongTerm bracketJSON brokenMemory (js ''42'') 0x61 = (Inr (), brokenMemory)"
proof -
  let ?none = "newMemory (Some \<lparr>AGENT_KV = None\<rparr>)"
  have u: "\<not> isAvailable ?none" by (simp add: newMemory_def)
  have a: "isAvailable brokenMemory" by (simp add: brokenMemory_def newMemory_def)
  have b: "\<exists>k. kv brokenMemory = Some k \<and> getFails k \<and> putFails k"
    by (simp add: brokenMemory_def newMemory_def)
  show ?thesis
    using memory_degrades[of bracketJSON ?none "js ''42''" "0x61" "0x61" None]
      memory_degrades[of bracketJSON brokenMemory "js ''42''" "0x61" "0x61" None] u a b
    by auto
qed

subsection \<open>C9: store, read back, expire\<close>

text \<open>
  C9: let the store be available with reads and writes succeeding, let \<open>xs\<close> be the list
  \<open>getConversations\<close> returns for the user, and let \<open>JSON.parse\<close> give back the list
  \<open>xs\<close> followed by \<open>m\<close> from the non-empty string \<open>JSON.stringify\<close> makes of it. After
  \<open>storeConversation\<close> of \<open>m\<close>, \<open>getConversations\<close> returns \<open>xs\<close> followed by \<open>m\<close>, and still
  does so any time less than 24 hours (86400 seconds) later; from 24 hours on, when the key
  has expired, it returns the empty list.
\<close>

theorem memory_roundtrip:
  assumes "isAvailable mem" and "kv mem = Some k" and "\<not> getFails k" and "\<not> putFails k"
    and "getConversations J mem u = Inr xs"
    and "stringify J (xs @ [m]) = Inr d" and "d \<noteq> []" and "parse J d = Inr (xs @ [m])"
  shows "getConversations J (snd (storeConversation J mem u m)) u = Inr (xs @ [m])
    \<and> (\<forall>t. t < TTL_CONVERSATION \<longrightarrow>
          getConversations J (elapse t (snd (storeConversation J mem u m))) u = Inr (xs @ [m]))
    \<and> (\<forall>t. TTL_CONVERSATION \<le> t \<longrightarrow>
          getConversations J (elapse t (snd (storeConversation J mem u m))) u = Inr [])
    \<and> TTL_CONVERSATION = 86400"
proof -
  let ?key = "MEMORY_TYPES_CONVERSATION @ js '':'' @ u"
  let ?k' = "k\<lparr>entries := (entries k)(?key \<mapsto> (d, kvNow k + TTL_CONVERSATION))\<rparr>"
  have st: "storeConversation J mem u m = (Inr (), mem\<lparr>kv := Some ?k'\<rparr>)"
    using assms by (simp add: storeConversation_def Let_def kv_put_def)
  have el: "elapse t (mem\<lparr>kv := Some ?k'\<rparr>)
      = mem\<lparr>kv := Some (?k'\<lparr>kvNow := kvNow k + t\<rparr>)\<rparr>" for t
    by (simp add: elapse_def)
  have now: "getConversations J (mem\<lparr>kv := Some ?k'\<rparr>) u = Inr (xs @ [m])"
    using assms by (simp add: getConversations_def Let_def kv_get_def TTL_CONVERSATION_def)
  have before: "getConversations J (elapse t (mem\<lparr>kv := Some ?k'\<rparr>)) u = Inr (xs @ [m])"
    if "t < TTL_CONVERSATION" for t
    using assms that unfolding el by (simp add: getConversations_def Let_def kv_get_def)
  have after: "getConversations J (elapse t (mem\<lparr>kv := Some ?k'\<rparr>)) u = Inr []"
    if "TTL_CONVERSATION \<le> t" for t
    using assms that unfolding el by (simp add: getConversations_def Let_def kv_get_def)
  show ?thesis
    using st now before after by (simp add: TTL_CONVERSATION_def)
qed

text \<open>
  Witness for C9: in an empty store, after two turns are stored for user 42 the read returns
  both in order; 86399 seconds after the second store it still does, 86400 seconds after it
  returns the empty list.
\<close>

theorem memory_roundtrip_witness:
  "getConversations bracketJSON oneTurnMemory (js ''42'') = Inr [0x61]
   \<and> getConversations bracketJSON (snd (storeConversation bracketJSON oneTurnMemory (js ''42'') 0x62))
        (js ''42'') = Inr [0x61, 0x62]
   \<and> getConversations bracketJSON
        (elapse 86399 (snd (storeConversation bracketJSON oneTurnMemory (js ''42'') 0x62)))
        (js ''42'') = Inr [0x61, 0x62]
   \<and> getConversations bracketJSON
        (elapse 86400 (snd (storeConversation bracketJSON oneTurnMemory (js ''42'') 0x62)))
        (js ''42'') = Inr []"
proof -
  let ?k = "emptyKV\<lparr>entries := [MEMORY_TYPES_CONVERSATION @ js '':'' @ js ''42''
              \<mapsto> ([0x5B, 0x61, 0x5D], 86400)]\<rparr>"
  have m1: "oneTurnMemory = \<lparr>kv = Some ?k, isAvailable = True\<rparr>"
    by (simp add: oneTurnMemory_def exampleMemory_def newMemory_def storeConversation_def
        getConversations_def Let_def kv_get_def kv_put_def emptyKV_def bracketJSON_def
        TTL_CONVERSATION_def)
  have h: "isAvailable oneTurnMemory" "kv oneTurnMemory = Some ?k" "\<not> getFails ?k" "\<not> putFails ?k"
    by (simp_all add: m1 emptyKV_def)
  have g: "getConversations bracketJSON oneTurnMemory (js ''42'') = Inr [0x61]"
    by (simp add: m1 getConversations_def Let_def kv_get_def emptyKV_def bracketJSON_def)
  have c: "stringify bracketJSON ([0x61] @ [0x62]) = Inr [0x5B, 0x61, 0x62, 0x5D]"
    "[0x5B, 0x61, 0x62, 0x5D] \<noteq> ([] :: jsstring)"
    "parse bracketJSON [0x5B, 0x61, 0x62, 0x5D] = Inr ([0x61] @ [0x62])"
    by (simp_all add: bracketJSON_def)
  have t: "(86399::int) < TTL_CONVERSATION" "TTL_CONVERSATION \<le> (86400::int)"
    by (simp_all add: TTL_CONVERSATION_def)
  show ?thesis
    using memory_roundtrip[OF h g c] t g by simp
qed


end
